theory Spec2Isabelle
  imports Complex_Main
begin

section \<open>Data model\<close>

text \<open>
  The interaction controller is the class \<open>App\<close>. Numbers of the data domain
  (extents, brush endpoints, bin keys) are exact rationals here; histogram counts are
  integers. View and dimension names are strings.
\<close>

type_synonym interval = "rat \<times> rat"

text \<open>
  Modelled from the spec: the type \<open>BinConfig\<close> is declared outside the modelled sources;
  the spec's data model lists the derived bin configuration as start, step and stop.
\<close>

record binConfig =
  start :: rat
  step :: rat
  stop :: rat

text \<open>
  A dimension as \<open>App\<close> reads it. \<open>binConfig\<close> is the optional field that
  \<open>initialize\<close> fills in and that the update functions read as \<open>binConfig!\<close>.
\<close>

record dimension =
  name :: string
  bins :: nat
  extent :: interval
  binConfig :: "binConfig option"

datatype view =
    View1D (dimension: dimension)
  | View2D (dimensions: "dimension \<times> dimension")

fun is1DView :: "view \<Rightarrow> bool" where
  "is1DView (View1D d) = True"
| "is1DView (View2D ds) = False"

subsection \<open>The ndarray library\<close>

text \<open>
  An \<open>ndarray\<close> is a shape and a flat row-major buffer. \<open>pick i\<close> is
  \<open>a.pick(i, null)\<close> (and \<open>a.pick(i, null, null)\<close>): the slice at index \<open>i\<close> of the
  first axis. A read outside the buffer is JavaScript's \<open>undefined\<close>, here \<open>None\<close>.
\<close>

record ndarray =
  shape :: "nat list"
  buffer :: "int list"

definition nd_size :: "ndarray \<Rightarrow> nat" where
  "nd_size a = prod_list (shape a)"

definition shape_at :: "ndarray \<Rightarrow> nat \<Rightarrow> nat" where
  \<comment> \<open>\<open>a.shape[k]\<close> as a loop bound: \<open>x < undefined\<close> is false, so a missing axis bounds like 0\<close>
  "shape_at a k = (if k < length (shape a) then shape a ! k else 0)"

definition pick :: "nat \<Rightarrow> ndarray \<Rightarrow> ndarray" where
  "pick i a =
     (let n = prod_list (tl (shape a))
      in \<lparr>shape = tl (shape a), buffer = take n (drop (i * n) (buffer a))\<rparr>)"

definition get1 :: "ndarray \<Rightarrow> nat \<Rightarrow> int option" where
  "get1 a x = (if x < length (buffer a) then Some (buffer a ! x) else None)"

definition get2 :: "ndarray \<Rightarrow> nat \<Rightarrow> nat \<Rightarrow> int option" where
  "get2 a x y =
     (let i = x * shape_at a 1 + y
      in if i < length (buffer a) then Some (buffer a ! i) else None)"

subsection \<open>Helpers of the util module\<close>

text \<open>
  Modelled from the spec: \<open>diff\<close> of the util module is outside the modelled sources.
  The spec's query returns the element-wise difference \<open>Cube[hiIndex] - Cube[loIndex]\<close>,
  and \<open>update\<close> calls \<open>diff(slice at lo, slice at hi)\<close>: the second argument minus the
  first, in the shape of the first.
\<close>

definition diff :: "ndarray \<Rightarrow> ndarray \<Rightarrow> ndarray" where
  "diff a b = \<lparr>shape = shape a, buffer = map2 (\<lambda>x y. y - x) (buffer a) (buffer b)\<rparr>"

text \<open>
  Modelled from the spec: \<open>stepSize\<close> of the util module is outside the modelled sources.
  The spec's boundaries are equally spaced over the extent, \<open>resolution\<close> steps wide.
\<close>

definition stepSize :: "interval \<Rightarrow> nat \<Rightarrow> rat" where
  "stepSize ext w = (snd ext - fst ext) / of_nat w"

text \<open>
  Modelled from the spec: \<open>binNumberFunction\<close> of the util module is outside the
  modelled sources, and \<open>App\<close> below takes it as a parameter. This is the rule the spec gives
  for it: an endpoint goes to the nearest boundary index, \<open>round((v - start) / step)\<close>;
  \<open>round\<close> rounds a half upwards, as \<open>Math.round\<close> does.
\<close>

definition round_to_nearest :: "rat \<Rightarrow> rat \<Rightarrow> rat \<Rightarrow> int" where
  "round_to_nearest start' step' v = round ((v - start') / step')"

text \<open>
  Modelled from the spec: \<open>clamp\<close> of the util module is outside the modelled sources.
  The spec clamps an index into an inclusive range.
\<close>

definition clamp :: "int \<Rightarrow> int \<times> int \<Rightarrow> int" where
  "clamp i bounds = max (fst bounds) (min (snd bounds) i)"

text \<open>
  Modelled from the spec: \<open>omit\<close> of the util module is outside the modelled sources.
  The passive views are all views but the named one, in their order.
\<close>

definition omit :: "(string \<times> view) list \<Rightarrow> string \<Rightarrow> (string \<times> view) list" where
  "omit vs n = filter (\<lambda>kv. fst kv \<noteq> n) vs"

text \<open>\<open>extent\<close> of d3 on a two-element array of numbers: its minimum and its maximum.\<close>

definition d3_extent :: "interval \<Rightarrow> interval" where
  "d3_extent v = (min (fst v) (snd v), max (fst v) (snd v))"

text \<open>
  The spec's boundary \<open>i\<close> of the equally spaced boundaries that start at \<open>start'\<close>.
\<close>

definition boundary :: "rat \<Rightarrow> rat \<Rightarrow> int \<Rightarrow> rat" where
  "boundary start' step' i = start' + of_int i * step'"

subsection \<open>What the controller is given\<close>

text \<open>
  The constructor's \<open>views\<close> (a Map, kept in insertion order) and \<open>db\<close> (of which
  \<open>App\<close> below calls \<open>loadData\<close>), the constant \<open>HISTOGRAM_WIDTH\<close> of the view
  module, and \<open>binToData\<close> and \<open>binNumberFunction\<close> of the util module (the latter
  applied to \<open>start\<close>, \<open>step\<close> and the value); the last three are defined outside
  the modelled sources and are parameters.
\<close>

record env =
  views :: "(string \<times> view) list"
  loadData :: "view \<Rightarrow> nat \<Rightarrow> (string \<times> view) list \<Rightarrow> (string \<rightharpoonup> interval)
                 \<Rightarrow> (string \<rightharpoonup> ndarray)"
  HISTOGRAM_WIDTH :: nat
  binToData :: "binConfig \<Rightarrow> nat \<Rightarrow> rat"
  binNumberFunction :: "rat \<Rightarrow> rat \<Rightarrow> rat \<Rightarrow> int"

subsection \<open>The controller's state\<close>

text \<open>
  A row handed to the rendering layer: \<open>{key, value}\<close> for a histogram,
  \<open>{keyX, keyY, value}\<close> for a heatmap.
\<close>

datatype row =
    Row1D (key: rat) (val: "int option")
  | Row2D (keyX: rat) (keyY: rat) (val: "int option")

text \<open>
  The fields of \<open>App\<close>. \<open>brushes\<close> is a reference to a Map object: \<open>maps\<close> is the
  store of Map objects, addressed by position, so that \<open>new Map(this.brushes)\<close> and the
  in-place \<open>set\<close> and \<open>delete\<close> keep their meaning. \<open>data\<close> is \<open>None\<close> until the
  first \<open>loadData\<close>. The remaining fields record what leaves the controller: the
  \<open>active\<close> signals sent to the vega views, the tables handed to them by
  \<open>updateView\<close>, the calls of \<open>db.loadData\<close>, and the number of callbacks passed to
  \<open>requestAnimationFrame\<close> that have not run yet.
\<close>

record app =
  activeView :: "string option"
  brushes :: nat
  maps :: "(string \<rightharpoonup> interval) list"
  data :: "(string \<rightharpoonup> ndarray) option"
  needsUpdate :: bool
  signals :: "(string \<times> bool) list"
  tables :: "(string \<times> row option list) list"
  loads :: "(view \<times> nat \<times> (string \<times> view) list \<times> (string \<rightharpoonup> interval)) list"
  frames :: nat

datatype error = TypeError

text \<open>A call returns, or throws with the state as it is at the throw.\<close>

datatype result = Ok app | Throw error app

fun state_of :: "result \<Rightarrow> app" where
  "state_of (Ok s) = s"
| "state_of (Throw e s) = s"

fun map_result :: "(app \<Rightarrow> app) \<Rightarrow> result \<Rightarrow> result" where
  "map_result f (Ok s) = Ok (f s)"
| "map_result f (Throw err s) = Throw err (f s)"

text \<open>
  The Map that \<open>this.brushes\<close> refers to, and the three operations on Map objects that
  \<open>App\<close> uses. A reference is valid when it lies below the length of the store.
\<close>

definition the_brushes :: "app \<Rightarrow> (string \<rightharpoonup> interval)" where
  "the_brushes s = maps s ! brushes s"

definition new_Map :: "(string \<rightharpoonup> interval) \<Rightarrow> app \<Rightarrow> nat \<times> app" where
  "new_Map m s = (length (maps s), s\<lparr>maps := maps s @ [m]\<rparr>)"

definition Map_delete :: "nat \<Rightarrow> string \<Rightarrow> app \<Rightarrow> app" where
  "Map_delete r k s = s\<lparr>maps := (maps s)[r := (maps s ! r)(k := None)]\<rparr>"

definition Map_set :: "nat \<Rightarrow> string \<Rightarrow> interval \<Rightarrow> app \<Rightarrow> app" where
  "Map_set r k v s = s\<lparr>maps := (maps s)[r := (maps s ! r)(k \<mapsto> v)]\<rparr>"

section \<open>The operations of App\<close>

definition getActiveView :: "env \<Rightarrow> app \<Rightarrow> view option" where
  "getActiveView e s =
     (case activeView s of None \<Rightarrow> None | Some n \<Rightarrow> map_of (views e) n)"

text \<open>
  Every configured view has its vega view (\<open>initialize\<close> creates it), so a change of its
  table and a change of its \<open>active\<close> signal are only recorded.
\<close>

definition updateView :: "string \<Rightarrow> row option list \<Rightarrow> app \<Rightarrow> app" where
  "updateView n rows s = s\<lparr>tables := tables s @ [(n, rows)]\<rparr>"

text \<open>
  \<open>new Array(hist.size)\<close> filled at the indices below \<open>hist.shape[0]\<close>: the array is
  as long as the larger of the two, and an index never written is a hole (\<open>None\<close>).
  \<open>binToData\<close> is applied to \<open>binConfig!\<close>; without a bin configuration the call
  throws.
\<close>

definition rows1D :: "(nat \<Rightarrow> rat) \<Rightarrow> ndarray \<Rightarrow> row option list" where
  "rows1D unbin hist =
     map (\<lambda>x. Some (Row1D (unbin x) (get1 hist x))) [0..<shape_at hist 0]
     @ replicate (nd_size hist - shape_at hist 0) None"

definition update1DView :: "env \<Rightarrow> string \<Rightarrow> dimension \<Rightarrow> ndarray \<Rightarrow> app \<Rightarrow> result" where
  "update1DView e n d hist s =
     (case binConfig d of
        None \<Rightarrow> Throw TypeError s
      | Some cfg \<Rightarrow> Ok (updateView n (rows1D (binToData e cfg) hist) s))"

definition rows2D :: "(nat \<Rightarrow> rat) \<Rightarrow> (nat \<Rightarrow> rat) \<Rightarrow> ndarray \<Rightarrow> row option list" where
  "rows2D binToDataX binToDataY heat =
     concat (map (\<lambda>x. map (\<lambda>y. Some (Row2D (binToDataX x) (binToDataY y) (get2 heat x y)))
                          [0..<shape_at heat 1])
                 [0..<shape_at heat 0])
     @ replicate (nd_size heat - shape_at heat 0 * shape_at heat 1) None"

definition update2DView ::
  "env \<Rightarrow> string \<Rightarrow> dimension \<times> dimension \<Rightarrow> ndarray \<Rightarrow> app \<Rightarrow> result" where
  "update2DView e n ds heat s =
     (case (binConfig (fst ds), binConfig (snd ds)) of
        (Some cfgX, Some cfgY) \<Rightarrow>
          Ok (updateView n (rows2D (binToData e cfgX) (binToData e cfgY) heat) s)
      | _ \<Rightarrow> Throw TypeError s)"

definition switchActiveView :: "env \<Rightarrow> string \<Rightarrow> app \<Rightarrow> result" where
  "switchActiveView e n s =
     (let s1 = (case activeView s of
                  None \<Rightarrow> s
                | Some a \<Rightarrow> if a \<noteq> [] then s\<lparr>signals := signals s @ [(a, False)]\<rparr> else s);
          s2 = s1\<lparr>activeView := Some n\<rparr>
      in case getActiveView e s2 of
           None \<Rightarrow> Throw TypeError s2
         | Some av \<Rightarrow>
             (let (b, s3) = new_Map (the_brushes s2) s2;
                  s4 = (if is1DView av then Map_delete b (name (dimension av)) s3 else s3);
                  call = (av, HISTOGRAM_WIDTH e, omit (views e) n, maps s4 ! b);
                  s5 = s4\<lparr>data := Some (loadData e av (HISTOGRAM_WIDTH e)
                                          (omit (views e) n) (maps s4 ! b)),
                          loads := loads s4 @ [call]\<rparr>
              in Ok (s5\<lparr>signals := signals s5 @ [(n, True)]\<rparr>)))"

definition brushMove :: "env \<Rightarrow> string \<Rightarrow> string \<Rightarrow> interval option \<Rightarrow> app \<Rightarrow> result" where
  "brushMove e n dname v s =
     (case (if activeView s \<noteq> Some n then switchActiveView e n s else Ok s) of
        Throw err s' \<Rightarrow> Throw err s'
      | Ok s1 \<Rightarrow>
          (let s2 = (case v of
                       None \<Rightarrow> Map_delete (brushes s1) dname s1
                     | Some iv \<Rightarrow> Map_set (brushes s1) dname (d3_extent iv) s1)
           in Ok (s2\<lparr>needsUpdate := True, frames := Suc (frames s2)\<rparr>)))"

text \<open>
  The function that \<open>update\<close> maps over the brush:
  \<open>b => clamp(activeBinF(b), [0, HISTOGRAM_WIDTH - 1])\<close>, for the active dimension \<open>d\<close>.
\<close>

definition pixel :: "env \<Rightarrow> dimension \<Rightarrow> rat \<Rightarrow> int" where
  "pixel e d b =
     clamp (binNumberFunction e (fst (extent d)) (stepSize (extent d) (HISTOGRAM_WIDTH e)) b)
           (0, int (HISTOGRAM_WIDTH e) - 1)"

definition activeBrush_of :: "env \<Rightarrow> dimension \<Rightarrow> app \<Rightarrow> (int \<times> int) option" where
  "activeBrush_of e d s =
     (case the_brushes s (name d) of
        None \<Rightarrow> None
      | Some brush \<Rightarrow> Some (pixel e d (fst brush), pixel e d (snd brush)))"

text \<open>What the loop of \<open>update\<close> picks from the cubes \<open>hists\<close> of one passive view.\<close>

definition slice :: "env \<Rightarrow> (int \<times> int) option \<Rightarrow> ndarray \<Rightarrow> ndarray" where
  "slice e activeBrush hists =
     (case activeBrush of
        Some ab \<Rightarrow> diff (pick (nat (fst ab)) hists) (pick (nat (snd ab)) hists)
      | None \<Rightarrow> pick (HISTOGRAM_WIDTH e) hists)"

fun update_views ::
  "env \<Rightarrow> (int \<times> int) option \<Rightarrow> (string \<times> view) list \<Rightarrow> app \<Rightarrow> result" where
  "update_views e ab [] s = Ok s"
| "update_views e ab ((n, v) # rest) s =
     (if Some n = activeView s then update_views e ab rest s
      else case data s of
        None \<Rightarrow> Throw TypeError s
      | Some m \<Rightarrow>
          (case m n of
             None \<Rightarrow> Throw TypeError s
           | Some hists \<Rightarrow>
               (case (case v of
                        View1D d \<Rightarrow> update1DView e n d (slice e ab hists) s
                      | View2D ds \<Rightarrow> update2DView e n ds (slice e ab hists) s) of
                  Throw err s' \<Rightarrow> Throw err s'
                | Ok s' \<Rightarrow> update_views e ab rest s')))"

definition update :: "env \<Rightarrow> app \<Rightarrow> result" where
  "update e s =
     (if \<not> needsUpdate s then Ok s
      else
        (let s1 = s\<lparr>needsUpdate := False\<rparr>
         in case getActiveView e s1 of
              Some (View1D d) \<Rightarrow> update_views e (activeBrush_of e d s1) (views e) s1
            | _ \<Rightarrow> Throw TypeError s1))"

section \<open>The listeners and the event loop\<close>

text \<open>
  \<open>initialize\<close> attaches a brush listener and a mouseover listener to every histogram
  view, and none to a heatmap view. \<open>brushMove\<close> passes \<open>update\<close> to
  \<open>requestAnimationFrame\<close>; a frame runs one pending callback. The rest of
  \<open>initialize\<close> is present through its results only: the dimensions carry the
  \<open>binConfig\<close> it computes, and its first paint of every view is not among the recorded
  tables.
\<close>

definition on_brush :: "env \<Rightarrow> string \<Rightarrow> interval option \<Rightarrow> app \<Rightarrow> result" where
  "on_brush e n v s =
     (case map_of (views e) n of
        Some (View1D d) \<Rightarrow> brushMove e n (name d) v s
      | _ \<Rightarrow> Ok s)"

definition on_mouseover :: "env \<Rightarrow> string \<Rightarrow> app \<Rightarrow> result" where
  "on_mouseover e n s =
     (case map_of (views e) n of
        Some (View1D d) \<Rightarrow> if activeView s \<noteq> Some n then switchActiveView e n s else Ok s
      | _ \<Rightarrow> Ok s)"

definition on_frame :: "env \<Rightarrow> app \<Rightarrow> result" where
  "on_frame e s =
     (case frames s of 0 \<Rightarrow> Ok s | Suc k \<Rightarrow> update e (s\<lparr>frames := k\<rparr>))"

datatype event = Mouseover string | Brush string "interval option" | Frame

fun fire :: "env \<Rightarrow> event \<Rightarrow> app \<Rightarrow> result" where
  "fire e (Mouseover n) s = on_mouseover e n s"
| "fire e (Brush n v) s = on_brush e n v s"
| "fire e Frame s = on_frame e s"

text \<open>The fields of a new \<open>App\<close>: no active view, an empty brushes Map, no data.\<close>

definition initial :: app where
  "initial = \<lparr>activeView = None, brushes = 0, maps = [Map.empty], data = None,
              needsUpdate = False, signals = [], tables = [], loads = [], frames = 0\<rparr>"

fun run :: "env \<Rightarrow> event list \<Rightarrow> app \<Rightarrow> app" where
  "run e [] s = s"
| "run e (ev # evs) s = run e evs (state_of (fire e ev s))"

text \<open>
  The states of a controller: the new one, and every state an event leaves, whether its
  listener returned or threw.
\<close>

inductive reachable :: "env \<Rightarrow> app \<Rightarrow> bool" for e :: env where
  start: "reachable e initial"
| step: "reachable e s \<Longrightarrow> reachable e (state_of (fire e ev s))"

text \<open>
  What holds of the controller between events: the brushes reference is valid, every
  stored brush is ordered, and when a view is active it is a histogram view whose cubes
  are those of the latest \<open>loadData\<close>, called with a filter context that had no entry
  for the active dimension.
\<close>

definition invariant :: "env \<Rightarrow> app \<Rightarrow> bool" where
  "invariant e s \<longleftrightarrow>
     brushes s < length (maps s)
     \<and> (\<forall>dn lo hi. the_brushes s dn = Some (lo, hi) \<longrightarrow> lo \<le> hi)
     \<and> (\<forall>a. activeView s = Some a \<longrightarrow>
           (\<exists>d calls fc.
              map_of (views e) a = Some (View1D d)
              \<and> loads s = calls @ [(View1D d, HISTOGRAM_WIDTH e, omit (views e) a, fc)]
              \<and> fc (name d) = None
              \<and> data s = Some (loadData e (View1D d) (HISTOGRAM_WIDTH e) (omit (views e) a) fc)))"

section \<open>The spec's side\<close>

text \<open>
  The spec's \<open>query\<close> of the cube store, in its words: with no interval the last slice
  \<open>Cube[resolution]\<close>, with an interval snapped to \<open>(loIndex, hiIndex)\<close> the
  element-wise difference \<open>Cube[hiIndex] - Cube[loIndex]\<close>.
\<close>

definition spec_query :: "nat \<Rightarrow> ndarray \<Rightarrow> (nat \<times> nat) option \<Rightarrow> ndarray" where
  "spec_query resolution cube snapped =
     (case snapped of
        None \<Rightarrow> pick resolution cube
      | Some ij \<Rightarrow>
          \<lparr>shape = tl (shape cube),
           buffer = map2 (-) (buffer (pick (snd ij) cube)) (buffer (pick (fst ij) cube))\<rparr>)"

text \<open>
  The snapped indices \<open>(loIndex, hiIndex)\<close> of the brush on the active dimension \<open>d\<close>,
  as \<open>update\<close> computes them and uses them as positions of cube slices.
\<close>

definition snapped :: "env \<Rightarrow> dimension \<Rightarrow> app \<Rightarrow> (nat \<times> nat) option" where
  "snapped e d s = map_option (\<lambda>ij. (nat (fst ij), nat (snd ij))) (activeBrush_of e d s)"

text \<open>
  The rows that \<open>update1DView\<close> and \<open>update2DView\<close> make of an aggregate, when the
  view's bin configurations are there.
\<close>

fun rows_of :: "env \<Rightarrow> view \<Rightarrow> ndarray \<Rightarrow> row option list option" where
  "rows_of e (View1D d) agg =
     (case binConfig d of
        None \<Rightarrow> None
      | Some cfg \<Rightarrow> Some (rows1D (binToData e cfg) agg))"
| "rows_of e (View2D ds) agg =
     (case (binConfig (fst ds), binConfig (snd ds)) of
        (Some cfgX, Some cfgY) \<Rightarrow> Some (rows2D (binToData e cfgX) (binToData e cfgY) agg)
      | _ \<Rightarrow> None)"

section \<open>An example: the flights configuration\<close>

text \<open>
  The dimensions and views of the flights configuration (arrival delay over
  \<open>[-10, 100]\<close>, distance over \<open>[50, 2000]\<close>, 25 bins each), at width 500, with a
  database whose cubes grow along the active axis: cell \<open>k\<close> of slice \<open>i\<close> holds
  \<open>i * (k + 1)\<close>.
\<close>

definition ARR_DELAY :: dimension where
  "ARR_DELAY = \<lparr>name = ''ARR_DELAY'', bins = 25, extent = (- 10, 100),
                 binConfig = Some \<lparr>start = - 10, step = 5, stop = 100\<rparr>\<rparr>"

definition DISTANCE :: dimension where
  "DISTANCE = \<lparr>name = ''DISTANCE'', bins = 25, extent = (50, 2000),
                binConfig = Some \<lparr>start = 0, step = 100, stop = 2000\<rparr>\<rparr>"

definition DEP_DELAY :: dimension where
  "DEP_DELAY = \<lparr>name = ''DEP_DELAY'', bins = 25, extent = (- 10, 100),
                 binConfig = Some \<lparr>start = - 10, step = 5, stop = 100\<rparr>\<rparr>"

definition counting_cube :: "nat \<Rightarrow> nat list \<Rightarrow> ndarray" where
  "counting_cube w dims =
     \<lparr>shape = Suc w # dims,
      buffer = map (\<lambda>j. int ((j div prod_list dims) * Suc (j mod prod_list dims)))
                   [0..<Suc w * prod_list dims]\<rparr>"

definition counting_db ::
  "view \<Rightarrow> nat \<Rightarrow> (string \<times> view) list \<Rightarrow> (string \<rightharpoonup> interval) \<Rightarrow> (string \<rightharpoonup> ndarray)" where
  "counting_db av w passive filters =
     map_of (map (\<lambda>kv. (fst kv, counting_cube w (if is1DView (snd kv) then [2] else [1, 2])))
                 passive)"

definition flights :: env where
  "flights =
     \<lparr>views = [(''ARR_DELAY'', View1D ARR_DELAY), (''DISTANCE'', View1D DISTANCE),
               (''DEP_DELAY_ARR_DELAY'', View2D (DEP_DELAY, ARR_DELAY))],
      loadData = counting_db,
      HISTOGRAM_WIDTH = 500,
      binToData = (\<lambda>cfg x. start cfg + of_nat x * step cfg),
      binNumberFunction = round_to_nearest\<rparr>"

text \<open>
  The state after a brush from 50 back to 10 on the arrival delay view of a new
  controller, before the next frame.
\<close>

definition brushed :: app where
  "brushed =
     \<lparr>activeView = Some ''ARR_DELAY'', brushes = 0,
      maps = [[''ARR_DELAY'' \<mapsto> (10, 50)], Map.empty],
      data = Some (counting_db (View1D ARR_DELAY) 500 (omit (views flights) ''ARR_DELAY'')
                     Map.empty),
      needsUpdate = True,
      signals = [(''ARR_DELAY'', True)],
      tables = [],
      loads = [(View1D ARR_DELAY, 500, omit (views flights) ''ARR_DELAY'', Map.empty)],
      frames = 1\<rparr>"

text \<open>
  The same state with the brush cleared again (a second brush signal, with no interval).
\<close>

definition unbrushed :: app where
  "unbrushed = brushed\<lparr>maps := [Map.empty, Map.empty], frames := 2\<rparr>"

text \<open>
  A second configuration: two histogram views \<open>A\<close> and \<open>B\<close> over one dimension
  \<open>X\<close>, and the state of a new controller after a mouseover on \<open>A\<close>.
\<close>

definition X :: dimension where
  "X = \<lparr>name = ''X'', bins = 2, extent = (0, 10),
         binConfig = Some \<lparr>start = 0, step = 5, stop = 10\<rparr>\<rparr>"

definition twins :: env where
  "twins = flights\<lparr>views := [(''A'', View1D X), (''B'', View1D X)]\<rparr>"

definition hovered :: app where
  "hovered = run twins [Mouseover ''A''] initial"

section \<open>Lemmas about the update loop\<close>

lemma update1DView_rows:
  "rows_of e (View1D d) agg = Some r \<Longrightarrow> update1DView e n d agg s = Ok (updateView n r s)"
  by (auto simp: update1DView_def split: option.splits)

lemma update2DView_rows:
  "rows_of e (View2D ds) agg = Some r \<Longrightarrow> update2DView e n ds agg s = Ok (updateView n r s)"
  by (auto simp: update2DView_def split: option.splits)

lemma update_views_skip:
  "Some n = activeView s \<Longrightarrow> update_views e ab ((n, v) # rest) s = update_views e ab rest s"
  by simp

lemma update_views_step:
  assumes "Some n \<noteq> activeView s" "data s = Some m" "m n = Some c"
    and "rows_of e v (slice e ab c) = Some r"
  shows "update_views e ab ((n, v) # rest) s = update_views e ab rest (updateView n r s)"
proof -
  have "(case v of View1D d \<Rightarrow> update1DView e n d (slice e ab c) s
                  | View2D ds \<Rightarrow> update2DView e n ds (slice e ab c) s) = Ok (updateView n r s)"
    using assms(4) by (cases v) (simp_all only: view.case update1DView_rows update2DView_rows)
  then show ?thesis
    using assms(1-3) by simp
qed


lemma update_views_tables:
  assumes "data s = Some m"
    and "\<forall>kv \<in> set vs. Some (fst kv) \<noteq> activeView s \<longrightarrow>
           (\<exists>c. m (fst kv) = Some c \<and> rows_of e (snd kv) (slice e ab c) = Some (tbl (fst kv)))"
  shows "update_views e ab vs s =
           Ok (s\<lparr>tables := tables s @ map (\<lambda>kv. (fst kv, tbl (fst kv)))
                                          (filter (\<lambda>kv. Some (fst kv) \<noteq> activeView s) vs)\<rparr>)"
  using assms
proof (induction vs arbitrary: s)
  case Nil
  then show ?case by simp
next
  case (Cons kv vs)
  obtain n v where kv: "kv = (n, v)" by (cases kv)
  have tail: "\<forall>kv \<in> set vs. Some (fst kv) \<noteq> activeView s \<longrightarrow>
           (\<exists>c. m (fst kv) = Some c \<and> rows_of e (snd kv) (slice e ab c) = Some (tbl (fst kv)))"
    using Cons.prems(2) by simp
  show ?case
  proof (cases "Some n = activeView s")
    case True
    have "update_views e ab (kv # vs) s = update_views e ab vs s"
      unfolding kv using True by (rule update_views_skip)
    also have "\<dots> = Ok (s\<lparr>tables := tables s @ map (\<lambda>kv. (fst kv, tbl (fst kv)))
                                          (filter (\<lambda>kv. Some (fst kv) \<noteq> activeView s) vs)\<rparr>)"
      using Cons.IH[OF Cons.prems(1) tail] .
    finally show ?thesis using True kv by simp
  next
    case False
    have "\<exists>c. m n = Some c \<and> rows_of e v (slice e ab c) = Some (tbl n)"
      using Cons.prems(2) False kv by simp
    then obtain c where c: "m n = Some c" "rows_of e v (slice e ab c) = Some (tbl n)"
      by blast
    let ?s' = "updateView n (tbl n) s"
    have d': "data ?s' = Some m" and a': "activeView ?s' = activeView s"
      and t': "tables ?s' = tables s @ [(n, tbl n)]"
      using Cons.prems(1) by (simp_all add: updateView_def)
    have tail': "\<forall>kv \<in> set vs. Some (fst kv) \<noteq> activeView ?s' \<longrightarrow>
           (\<exists>c. m (fst kv) = Some c \<and> rows_of e (snd kv) (slice e ab c) = Some (tbl (fst kv)))"
      using tail a' by simp
    have "update_views e ab (kv # vs) s = update_views e ab vs ?s'"
      unfolding kv using False Cons.prems(1) c by (rule update_views_step)
    also have "\<dots> = Ok (?s'\<lparr>tables := tables ?s' @ map (\<lambda>kv. (fst kv, tbl (fst kv)))
                                          (filter (\<lambda>kv. Some (fst kv) \<noteq> activeView ?s') vs)\<rparr>)"
      using Cons.IH[OF d' tail'] .
    also have "\<dots> = Ok (s\<lparr>tables := tables s @ map (\<lambda>kv. (fst kv, tbl (fst kv)))
                                 (filter (\<lambda>kv. Some (fst kv) \<noteq> activeView s) (kv # vs))\<rparr>)"
      using False kv by (simp add: updateView_def)
    finally show ?thesis .
  qed
qed

lemma map2_flip: "map2 (\<lambda>x y. f y x) xs ys = map2 f ys xs"
proof (induction xs arbitrary: ys)
  case Nil
  then show ?case by simp
next
  case (Cons x xs)
  then show ?case by (cases ys) simp_all
qed

lemma slice_spec_query:
  "slice e ab c =
     spec_query (HISTOGRAM_WIDTH e) c (map_option (\<lambda>ij. (nat (fst ij), nat (snd ij))) ab)"
  by (cases ab)
     (simp_all add: slice_def spec_query_def diff_def map2_flip [of "(-)"] pick_def Let_def)

lemma pick_counting_cube:
  assumes "i \<le> w"
  shows "pick i (counting_cube w dims) =
           \<lparr>shape = dims,
            buffer = map (\<lambda>j. int ((j div prod_list dims) * Suc (j mod prod_list dims)))
                         [i * prod_list dims ..< Suc i * prod_list dims]\<rparr>"
proof -
  have "i * prod_list dims + prod_list dims \<le> Suc w * prod_list dims"
    using assms by (metis Suc_le_mono mult_Suc mult_le_mono1 add.commute)
  then show ?thesis
    by (simp add: pick_def counting_cube_def Let_def take_map drop_map add.commute)
qed

lemma update_tables:
  assumes "needsUpdate s" and "activeView s = Some a"
    and "map_of (views e) a = Some (View1D d)" and "data s = Some m"
    and "\<forall>kv \<in> set (omit (views e) a).
           \<exists>c. m (fst kv) = Some c \<and>
               rows_of e (snd kv) (slice e (activeBrush_of e d s) c) = Some (tbl (fst kv))"
  shows "update e s =
           Ok (s\<lparr>needsUpdate := False,
                 tables := tables s @ map (\<lambda>kv. (fst kv, tbl (fst kv))) (omit (views e) a)\<rparr>)"
proof -
  let ?s1 = "s\<lparr>needsUpdate := False\<rparr>"
  have ab: "activeBrush_of e d ?s1 = activeBrush_of e d s"
    by (simp add: activeBrush_of_def the_brushes_def)
  have f: "filter (\<lambda>kv. Some (fst kv) \<noteq> activeView ?s1) (views e) = omit (views e) a"
    using assms(2) by (simp add: omit_def)
  have hyp: "\<forall>kv \<in> set (views e). Some (fst kv) \<noteq> activeView ?s1 \<longrightarrow>
           (\<exists>c. m (fst kv) = Some c \<and>
               rows_of e (snd kv) (slice e (activeBrush_of e d ?s1) c) = Some (tbl (fst kv)))"
    using assms(2,5) unfolding ab by (simp add: omit_def)
  have "data ?s1 = Some m" using assms(4) by simp
  from update_views_tables[OF this hyp]
  have "update_views e (activeBrush_of e d ?s1) (views e) ?s1 =
          Ok (?s1\<lparr>tables := tables ?s1 @ map (\<lambda>kv. (fst kv, tbl (fst kv))) (omit (views e) a)\<rparr>)"
    unfolding f .
  moreover have "getActiveView e ?s1 = Some (View1D d)"
    using assms(2,3) by (simp add: getActiveView_def)
  ultimately show ?thesis
    using assms(1) by (simp add: update_def Let_def)
qed

section \<open>Facts about the example\<close>

lemma flights_passive: "omit (views flights) ''ARR_DELAY'' =
  [(''DISTANCE'', View1D DISTANCE), (''DEP_DELAY_ARR_DELAY'', View2D (DEP_DELAY, ARR_DELAY))]"
  by (simp add: omit_def flights_def)

lemma pixels_flights:
  "pixel flights ARR_DELAY 10 = 91" "pixel flights ARR_DELAY 50 = 273"
  by (simp_all add: pixel_def flights_def ARR_DELAY_def stepSize_def round_to_nearest_def clamp_def round_def floor_eq_iff)


lemma brushed_fields:
  "needsUpdate brushed" "activeView brushed = Some ''ARR_DELAY''"
  "data brushed = Some (counting_db (View1D ARR_DELAY) 500 (omit (views flights) ''ARR_DELAY'') Map.empty)"
  "the_brushes brushed = [''ARR_DELAY'' \<mapsto> (10, 50)]"
  "tables brushed = []"
  by (simp_all add: brushed_def the_brushes_def)

lemma flights_fields:
  "HISTOGRAM_WIDTH flights = 500"
  "map_of (views flights) ''ARR_DELAY'' = Some (View1D ARR_DELAY)"
  "map_of (views flights) ''DISTANCE'' = Some (View1D DISTANCE)"
  "binNumberFunction flights = round_to_nearest"
  by (simp_all add: flights_def)

lemma snapped_brushed: "snapped flights ARR_DELAY brushed = Some (91, 273)"
proof -
  have "name ARR_DELAY = ''ARR_DELAY''" by (simp add: ARR_DELAY_def)
  then show ?thesis
    by (simp add: snapped_def activeBrush_of_def brushed_fields pixels_flights)
qed

lemma counting_db_passive:
  "counting_db av w [(''DISTANCE'', View1D DISTANCE),
       (''DEP_DELAY_ARR_DELAY'', View2D (DEP_DELAY, ARR_DELAY))] f ''DISTANCE''
     = Some (counting_cube w [2])"
  "counting_db av w [(''DISTANCE'', View1D DISTANCE),
       (''DEP_DELAY_ARR_DELAY'', View2D (DEP_DELAY, ARR_DELAY))] f ''DEP_DELAY_ARR_DELAY''
     = Some (counting_cube w [Suc 0, 2])"
  by (simp_all add: counting_db_def)

lemma shape_counting_cube: "shape (counting_cube w dims) = Suc w # dims"
  by (simp add: counting_cube_def)

lemma query_brushed:
  "spec_query 500 (counting_cube 500 [2]) (Some (91, 273)) = \<lparr>shape = [2], buffer = [182, 364]\<rparr>"
  "spec_query 500 (counting_cube 500 [Suc 0, 2]) (Some (91, 273))
     = \<lparr>shape = [Suc 0, 2], buffer = [182, 364]\<rparr>"
  by (simp_all add: spec_query_def pick_counting_cube shape_counting_cube)

lemma rows_brushed:
  "rows_of flights (View1D DISTANCE) \<lparr>shape = [2], buffer = [182, 364]\<rparr>
     = Some [Some (Row1D 0 (Some 182)), Some (Row1D 100 (Some 364))]"
  "rows_of flights (View2D (DEP_DELAY, ARR_DELAY)) \<lparr>shape = [Suc 0, 2], buffer = [182, 364]\<rparr>
     = Some [Some (Row2D (- 10) (- 10) (Some 182)), Some (Row2D (- 10) (- 5) (Some 364))]"
  by (simp_all add: DISTANCE_def DEP_DELAY_def ARR_DELAY_def
        flights_def rows1D_def rows2D_def shape_at_def nd_size_def get1_def get2_def
        numeral_2_eq_2 upt_rec [of 0])


lemma unbrushed_fields:
  "needsUpdate unbrushed" "activeView unbrushed = Some ''ARR_DELAY''"
  "data unbrushed = Some (counting_db (View1D ARR_DELAY) 500 (omit (views flights) ''ARR_DELAY'') Map.empty)"
  "the_brushes unbrushed = Map.empty"
  "tables unbrushed = []"
  by (simp_all add: unbrushed_def brushed_def the_brushes_def)

lemma snapped_unbrushed: "snapped flights ARR_DELAY unbrushed = None"
  by (simp add: snapped_def activeBrush_of_def unbrushed_fields)

lemma query_unbrushed:
  "spec_query 500 (counting_cube 500 [2]) None = \<lparr>shape = [2], buffer = [500, 1000]\<rparr>"
  "spec_query 500 (counting_cube 500 [Suc 0, 2]) None = \<lparr>shape = [Suc 0, 2], buffer = [500, 1000]\<rparr>"
  by (simp_all add: spec_query_def pick_counting_cube)

lemma rows_unbrushed:
  "rows_of flights (View1D DISTANCE) \<lparr>shape = [2], buffer = [500, 1000]\<rparr>
     = Some [Some (Row1D 0 (Some 500)), Some (Row1D 100 (Some 1000))]"
  "rows_of flights (View2D (DEP_DELAY, ARR_DELAY)) \<lparr>shape = [Suc 0, 2], buffer = [500, 1000]\<rparr>
     = Some [Some (Row2D (- 10) (- 10) (Some 500)), Some (Row2D (- 10) (- 5) (Some 1000))]"
  by (simp_all add: DISTANCE_def DEP_DELAY_def ARR_DELAY_def
        flights_def rows1D_def rows2D_def shape_at_def nd_size_def get1_def get2_def
        numeral_2_eq_2 upt_rec [of 0])

section \<open>What update hands to the passive views\<close>

text \<open>
  Claim C1. When \<open>update\<close> runs, every passive view is handed the rows of one aggregate
  of its cube: with no brush on the active view's dimension the last slice, the one at
  index \<open>HISTOGRAM_WIDTH\<close>; with a brush the element-wise difference of the slice at the
  snapped index of the high endpoint and the slice at the snapped index of the low
  endpoint. The active view itself is handed nothing.
\<close>

theorem update_hands_over_query:
  assumes "needsUpdate s" and "activeView s = Some a"
    and "map_of (views e) a = Some (View1D d)" and "data s = Some m"
    and "\<forall>kv \<in> set (omit (views e) a).
           m (fst kv) = Some (cube (fst kv)) \<and>
           rows_of e (snd kv) (spec_query (HISTOGRAM_WIDTH e) (cube (fst kv)) (snapped e d s))
             = Some (tbl (fst kv))"
  shows "update e s =
           Ok (s\<lparr>needsUpdate := False,
                 tables := tables s @ map (\<lambda>kv. (fst kv, tbl (fst kv))) (omit (views e) a)\<rparr>)
         \<and> snapped e d s =
             map_option (\<lambda>iv. (nat (pixel e d (fst iv)), nat (pixel e d (snd iv))))
                        (the_brushes s (name d))"
proof
  have "\<forall>kv \<in> set (omit (views e) a).
           \<exists>c. m (fst kv) = Some c \<and>
               rows_of e (snd kv) (slice e (activeBrush_of e d s) c) = Some (tbl (fst kv))"
    using assms(5) by (simp add: slice_spec_query snapped_def)
  then show "update e s =
           Ok (s\<lparr>needsUpdate := False,
                 tables := tables s @ map (\<lambda>kv. (fst kv, tbl (fst kv))) (omit (views e) a)\<rparr>)"
    by (rule update_tables[OF assms(1-4)])
  show "snapped e d s =
             map_option (\<lambda>iv. (nat (pixel e d (fst iv)), nat (pixel e d (snd iv))))
                        (the_brushes s (name d))"
    by (simp add: snapped_def activeBrush_of_def split: option.splits)
qed

theorem update_hands_over_query_witness:
  "update flights brushed =
     Ok (brushed\<lparr>needsUpdate := False,
           tables := [(''DISTANCE'', [Some (Row1D 0 (Some 182)), Some (Row1D 100 (Some 364))]),
                      (''DEP_DELAY_ARR_DELAY'',
                       [Some (Row2D (- 10) (- 10) (Some 182)),
                        Some (Row2D (- 10) (- 5) (Some 364))])]\<rparr>)
   \<and> snapped flights ARR_DELAY brushed = Some (91, 273)
   \<and> update flights unbrushed =
     Ok (unbrushed\<lparr>needsUpdate := False,
           tables := [(''DISTANCE'', [Some (Row1D 0 (Some 500)), Some (Row1D 100 (Some 1000))]),
                      (''DEP_DELAY_ARR_DELAY'',
                       [Some (Row2D (- 10) (- 10) (Some 500)),
                        Some (Row2D (- 10) (- 5) (Some 1000))])]\<rparr>)"
proof -
  let ?cube = "\<lambda>n. counting_cube 500 (if n = ''DISTANCE'' then [2] else [Suc 0, 2])"
  let ?tbl = "\<lambda>n. if n = ''DISTANCE''
                 then [Some (Row1D 0 (Some 182)), Some (Row1D 100 (Some 364))]
                 else [Some (Row2D (- 10) (- 10) (Some 182)), Some (Row2D (- 10) (- 5) (Some 364))]"
  let ?tbl' = "\<lambda>n. if n = ''DISTANCE''
                 then [Some (Row1D 0 (Some 500)), Some (Row1D 100 (Some 1000))]
                 else [Some (Row2D (- 10) (- 10) (Some 500)), Some (Row2D (- 10) (- 5) (Some 1000))]"
  let ?m = "counting_db (View1D ARR_DELAY) 500 (omit (views flights) ''ARR_DELAY'') Map.empty"
  have h: "\<forall>kv \<in> set (omit (views flights) ''ARR_DELAY'').
           ?m (fst kv) = Some (?cube (fst kv)) \<and>
           rows_of flights (snd kv)
             (spec_query (HISTOGRAM_WIDTH flights) (?cube (fst kv)) (snapped flights ARR_DELAY brushed))
             = Some (?tbl (fst kv))"
    by (simp add: counting_db_passive snapped_brushed flights_fields query_brushed rows_brushed
          flights_passive del: rows_of.simps)
  have h': "\<forall>kv \<in> set (omit (views flights) ''ARR_DELAY'').
           ?m (fst kv) = Some (?cube (fst kv)) \<and>
           rows_of flights (snd kv)
             (spec_query (HISTOGRAM_WIDTH flights) (?cube (fst kv)) (snapped flights ARR_DELAY unbrushed))
             = Some (?tbl' (fst kv))"
    by (simp add: counting_db_passive snapped_unbrushed flights_fields query_unbrushed
          rows_unbrushed flights_passive del: rows_of.simps)
  show ?thesis
    using update_hands_over_query [OF brushed_fields(1,2) flights_fields(2) brushed_fields(3) h]
      update_hands_over_query [OF unbrushed_fields(1,2) flights_fields(2) unbrushed_fields(3) h']
    by (simp add: flights_passive brushed_fields unbrushed_fields snapped_brushed)
qed

lemma switchActiveView_Ok:
  assumes "map_of (views e) n = Some av"
  shows "\<exists>s'. switchActiveView e n s = Ok s' \<and> activeView s' = Some n
           \<and> brushes s' = brushes s
           \<and> maps s' = maps s @ [if is1DView av
                                    then (the_brushes s)(name (dimension av) := None)
                                    else the_brushes s]
           \<and> data s' = Some (loadData e av (HISTOGRAM_WIDTH e) (omit (views e) n)
                               (if is1DView av
                                then (the_brushes s)(name (dimension av) := None)
                                else the_brushes s))
           \<and> loads s' = loads s @ [(av, HISTOGRAM_WIDTH e, omit (views e) n,
                               if is1DView av
                                then (the_brushes s)(name (dimension av) := None)
                                else the_brushes s)]
           \<and> needsUpdate s' = needsUpdate s \<and> tables s' = tables s \<and> frames s' = frames s"
  using assms
  by (simp add: switchActiveView_def getActiveView_def new_Map_def Map_delete_def the_brushes_def
        Let_def split: option.splits)

lemma switchActiveView_Throw:
  assumes "map_of (views e) n = None"
  shows "\<exists>s'. switchActiveView e n s = Throw TypeError s' \<and> activeView s' = Some n
           \<and> brushes s' = brushes s \<and> maps s' = maps s \<and> data s' = data s
           \<and> loads s' = loads s \<and> needsUpdate s' = needsUpdate s \<and> tables s' = tables s
           \<and> frames s' = frames s"
  using assms
  by (simp add: switchActiveView_def getActiveView_def Let_def split: option.splits)


lemma brushed_wf: "brushes brushed < length (maps brushed)"
  by (simp add: brushed_def)

lemma brushed_loads:
  "loads brushed = [(View1D ARR_DELAY, 500, omit (views flights) ''ARR_DELAY'', Map.empty)]"
  by (simp add: brushed_def)

lemma dimension_names:
  "name ARR_DELAY = ''ARR_DELAY''" "name DISTANCE = ''DISTANCE''" "name DEP_DELAY = ''DEP_DELAY''"
  by (simp_all add: ARR_DELAY_def DISTANCE_def DEP_DELAY_def)

section \<open>switchActiveView and the brushes Map\<close>

text \<open>
  Claim C10. \<open>switchActiveView\<close> deletes the newly active dimension from a copy of the
  brushes Map, hands that copy to \<open>loadData\<close> as the filter context, and leaves the
  controller's own Map as it was: it is the same object with the same entry for every
  dimension.
\<close>

theorem switchActiveView_keeps_brushes:
  assumes "brushes s < length (maps s)"
  shows "brushes (state_of (switchActiveView e n s)) = brushes s
       \<and> the_brushes (state_of (switchActiveView e n s)) = the_brushes s
       \<and> (\<forall>av. map_of (views e) n = Some av \<longrightarrow>
             loads (state_of (switchActiveView e n s)) =
               loads s @ [(av, HISTOGRAM_WIDTH e, omit (views e) n,
                           if is1DView av then (the_brushes s)(name (dimension av) := None)
                           else the_brushes s)])"
proof (cases "map_of (views e) n")
  case None
  from switchActiveView_Throw [OF None, of s]
  obtain s' where "switchActiveView e n s = Throw TypeError s'"
    "brushes s' = brushes s" "maps s' = maps s"
    by blast
  then show ?thesis using None by (simp add: the_brushes_def)
next
  case (Some av)
  from switchActiveView_Ok [OF Some, of s]
  obtain s' where s': "switchActiveView e n s = Ok s'" "brushes s' = brushes s"
    "maps s' = maps s @ [if is1DView av then (the_brushes s)(name (dimension av) := None)
                         else the_brushes s]"
    "loads s' = loads s @ [(av, HISTOGRAM_WIDTH e, omit (views e) n,
                               if is1DView av
                                then (the_brushes s)(name (dimension av) := None)
                                else the_brushes s)]"
    by blast
  have "the_brushes s' = the_brushes s"
    using assms s'(2,3) by (simp add: the_brushes_def nth_append)
  then show ?thesis using Some s' by simp
qed

theorem switchActiveView_keeps_brushes_witness:
  "brushes brushed < length (maps brushed)
   \<and> brushes (state_of (switchActiveView flights ''ARR_DELAY'' brushed)) = brushes brushed
   \<and> the_brushes (state_of (switchActiveView flights ''ARR_DELAY'' brushed))
       = [''ARR_DELAY'' \<mapsto> (10, 50)]
   \<and> loads (state_of (switchActiveView flights ''ARR_DELAY'' brushed))
       = loads brushed @ [(View1D ARR_DELAY, 500, omit (views flights) ''ARR_DELAY'', Map.empty)]"
  using switchActiveView_keeps_brushes [OF brushed_wf, of flights "''ARR_DELAY''"]
  by (simp add: brushed_wf brushed_fields flights_fields dimension_names)

section \<open>Hovering a view\<close>

text \<open>
  Claim C5, as the code has it. A mouseover on a histogram view other than the active view
  makes that view the active one and calls \<open>loadData\<close> with a filter context that is the
  current brushes without the brush on that view's dimension. A mouseover on the active
  view does nothing, and neither does one on a heatmap view, which has no mouseover
  listener.
\<close>

theorem hover_switches_and_builds:
  assumes "map_of (views e) n = Some v"
  shows "if is1DView v \<and> activeView s \<noteq> Some n
         then \<exists>s'. on_mouseover e n s = Ok s' \<and> activeView s' = Some n
                \<and> loads s' = loads s @ [(v, HISTOGRAM_WIDTH e, omit (views e) n,
                                          (the_brushes s)(name (dimension v) := None))]
                \<and> data s' = Some (loadData e v (HISTOGRAM_WIDTH e) (omit (views e) n)
                                    ((the_brushes s)(name (dimension v) := None)))
         else on_mouseover e n s = Ok s"
proof (cases v)
  case (View1D d)
  show ?thesis
  proof (cases "activeView s = Some n")
    case True
    then show ?thesis using assms View1D by (simp add: on_mouseover_def)
  next
    case False
    have "on_mouseover e n s = switchActiveView e n s"
      using assms View1D False by (simp add: on_mouseover_def)
    then show ?thesis
      using switchActiveView_Ok [OF assms, of s] View1D False by auto
  qed
next
  case (View2D ds)
  then show ?thesis using assms by (simp add: on_mouseover_def)
qed

theorem hover_switches_and_builds_witness:
  "(\<exists>s'. on_mouseover flights ''DISTANCE'' brushed = Ok s' \<and> activeView s' = Some ''DISTANCE''
         \<and> loads s' = loads brushed @ [(View1D DISTANCE, 500, omit (views flights) ''DISTANCE'',
                                         [''ARR_DELAY'' \<mapsto> (10, 50)])])
   \<and> on_mouseover flights ''ARR_DELAY'' brushed = Ok brushed"
  using hover_switches_and_builds [OF flights_fields(3), of brushed]
    hover_switches_and_builds [OF flights_fields(2), of brushed]
  by (auto simp: brushed_fields flights_fields dimension_names)

theorem hover_on_heatmap_counterexample:
  "map_of (views flights) ''DEP_DELAY_ARR_DELAY'' = Some (View2D (DEP_DELAY, ARR_DELAY))
   \<and> activeView brushed = Some ''ARR_DELAY''
   \<and> on_mouseover flights ''DEP_DELAY_ARR_DELAY'' brushed = Ok brushed"
  by (simp add: on_mouseover_def flights_def brushed_def)

section \<open>Lemmas about the event loop\<close>

lemma update1DView_state: "\<exists>t. state_of (update1DView e n d h s) = s\<lparr>tables := t\<rparr>"
proof (cases "binConfig d")
  case None
  then have "state_of (update1DView e n d h s) = s\<lparr>tables := tables s\<rparr>"
    by (simp add: update1DView_def)
  then show ?thesis ..
next
  case (Some cfg)
  then have "state_of (update1DView e n d h s)
               = s\<lparr>tables := tables s @ [(n, rows1D (binToData e cfg) h)]\<rparr>"
    by (simp add: update1DView_def updateView_def)
  then show ?thesis ..
qed

lemma update2DView_state: "\<exists>t. state_of (update2DView e n ds h s) = s\<lparr>tables := t\<rparr>"
proof (cases "rows_of e (View2D ds) h")
  case None
  then have "state_of (update2DView e n ds h s) = s\<lparr>tables := tables s\<rparr>"
    by (auto simp: update2DView_def split: option.splits)
  then show ?thesis ..
next
  case (Some r)
  then have "state_of (update2DView e n ds h s) = s\<lparr>tables := tables s @ [(n, r)]\<rparr>"
    by (simp add: update2DView_rows updateView_def)
  then show ?thesis ..
qed

lemma update_views_state: "\<exists>t. state_of (update_views e ab vs s) = s\<lparr>tables := t\<rparr>"
proof (induction vs arbitrary: s)
  case Nil
  have "state_of (update_views e ab [] s) = s\<lparr>tables := tables s\<rparr>" by simp
  then show ?case ..
next
  case (Cons kv vs)
  obtain n v where kv: "kv = (n, v)" by (cases kv)
  have keep: "\<exists>t. s = s\<lparr>tables := t\<rparr>"
  proof
    show "s = s\<lparr>tables := tables s\<rparr>" by simp
  qed
  show ?case
  proof (cases "Some n = activeView s")
    case True
    then show ?thesis using Cons.IH [of s] kv by simp
  next
    case False
    show ?thesis
    proof (cases "data s")
      case None
      then show ?thesis using False kv keep by simp
    next
      case (Some m)
      show ?thesis
      proof (cases "m n")
        case None
        then show ?thesis using False kv Some keep by simp
      next
        case (Some hists)
        let ?r = "case v of View1D d \<Rightarrow> update1DView e n d (slice e ab hists) s
                   | View2D ds \<Rightarrow> update2DView e n ds (slice e ab hists) s"
        have r: "\<exists>t. state_of ?r = s\<lparr>tables := t\<rparr>"
          by (cases v) (simp_all add: update1DView_state update2DView_state)
        have eq: "update_views e ab (kv # vs) s =
                (case ?r of Throw err s' \<Rightarrow> Throw err s' | Ok s' \<Rightarrow> update_views e ab vs s')"
          using False kv \<open>data s = Some m\<close> Some by simp
        show ?thesis
        proof (cases ?r)
          case (Throw err s')
          then show ?thesis using r eq by simp
        next
          case (Ok s')
          then obtain t where t: "s' = s\<lparr>tables := t\<rparr>" using r by auto
          obtain t' where "state_of (update_views e ab vs s') = s'\<lparr>tables := t'\<rparr>"
            using Cons.IH [of s'] by blast
          then have "state_of (update_views e ab (kv # vs) s) = s\<lparr>tables := t'\<rparr>"
            using eq Ok t by simp
          then show ?thesis ..
        qed
      qed
    qed
  qed
qed

lemma update_state: "\<exists>t. state_of (update e s) = s\<lparr>needsUpdate := False, tables := t\<rparr>"
proof (cases "needsUpdate s")
  case False
  then have "state_of (update e s) = s\<lparr>needsUpdate := False, tables := tables s\<rparr>"
    by (simp add: update_def)
  then show ?thesis ..
next
  case True
  let ?s1 = "s\<lparr>needsUpdate := False\<rparr>"
  show ?thesis
  proof (cases "\<exists>d. getActiveView e ?s1 = Some (View1D d)")
    case False
    then have "state_of (update e s) = s\<lparr>needsUpdate := False, tables := tables s\<rparr>"
      using True by (auto simp: update_def Let_def split: option.splits view.splits)
    then show ?thesis ..
  next
    case True
    then obtain d where d: "getActiveView e ?s1 = Some (View1D d)" ..
    obtain t where "state_of (update_views e (activeBrush_of e d ?s1) (views e) ?s1)
                      = ?s1\<lparr>tables := t\<rparr>"
      using update_views_state by blast
    then have "state_of (update e s) = s\<lparr>needsUpdate := False, tables := t\<rparr>"
      using \<open>needsUpdate s\<close> d by (simp add: update_def Let_def)
    then show ?thesis ..
  qed
qed

lemma update_clear: "\<not> needsUpdate s \<Longrightarrow> update e s = Ok s"
  by (simp add: update_def)

lemma invariant_initial: "invariant e initial"
  by (simp add: invariant_def initial_def the_brushes_def)

lemma invariant_tables:
  assumes "invariant e s"
  shows "invariant e (s\<lparr>frames := k, needsUpdate := b, tables := t\<rparr>)"
  using assms by (simp add: invariant_def the_brushes_def)

lemma invariant_switch:
  assumes "invariant e s" and "map_of (views e) n = Some (View1D d)"
  shows "invariant e (state_of (switchActiveView e n s))"
proof -
  let ?fc = "(the_brushes s)(name d := None)"
  from switchActiveView_Ok [OF assms(2), of s]
  obtain s' where s': "switchActiveView e n s = Ok s'" "activeView s' = Some n"
    "brushes s' = brushes s" "maps s' = maps s @ [?fc]"
    "data s' = Some (loadData e (View1D d) (HISTOGRAM_WIDTH e) (omit (views e) n) ?fc)"
    "loads s' = loads s @ [(View1D d, HISTOGRAM_WIDTH e, omit (views e) n, ?fc)]"
    by auto
  have wf: "brushes s < length (maps s)" using assms(1) by (simp add: invariant_def)
  have same: "the_brushes s' = the_brushes s"
    using wf s'(3,4) by (simp add: the_brushes_def nth_append)
  have "invariant e s'"
    unfolding invariant_def
  proof (intro conjI allI impI)
    show "brushes s' < length (maps s')" using wf s'(3,4) by simp
  next
    fix dn lo hi assume "the_brushes s' dn = Some (lo, hi)"
    then show "lo \<le> hi" using assms(1) same by (simp add: invariant_def)
  next
    fix a assume "activeView s' = Some a"
    then have "a = n" using s'(2) by simp
    then show "\<exists>d calls fc.
              map_of (views e) a = Some (View1D d)
              \<and> loads s' = calls @ [(View1D d, HISTOGRAM_WIDTH e, omit (views e) a, fc)]
              \<and> fc (name d) = None
              \<and> data s' = Some (loadData e (View1D d) (HISTOGRAM_WIDTH e) (omit (views e) a) fc)"
      using assms(2) s'(5,6) by auto
  qed
  then show ?thesis using s'(1) by simp
qed

lemma invariant_set:
  assumes "invariant e s"
  shows "invariant e ((case v of None \<Rightarrow> Map_delete (brushes s) dname s
                        | Some iv \<Rightarrow> Map_set (brushes s) dname (d3_extent iv) s)
                      \<lparr>needsUpdate := True, frames := k\<rparr>)"
proof -
  have wf: "brushes s < length (maps s)" using assms by (simp add: invariant_def)
  show ?thesis
  proof (cases v)
    case None
    then show ?thesis
      using assms wf
      by (auto simp: invariant_def the_brushes_def Map_delete_def split: if_splits)
  next
    case (Some iv)
    then show ?thesis
      using assms wf
      by (auto simp: invariant_def the_brushes_def Map_set_def d3_extent_def split: if_splits)
  qed
qed


lemma brushMove_state:
  assumes "map_of (views e) n = Some (View1D d)"
  shows "\<exists>s1. (s1 = s \<and> activeView s = Some n \<or> s1 = state_of (switchActiveView e n s))
            \<and> brushMove e n dname v s =
                Ok ((case v of None \<Rightarrow> Map_delete (brushes s1) dname s1
                     | Some iv \<Rightarrow> Map_set (brushes s1) dname (d3_extent iv) s1)
                    \<lparr>needsUpdate := True, frames := Suc (frames s1)\<rparr>)"
proof (cases "activeView s = Some n")
  case True
  then show ?thesis
    by (cases v) (auto simp: brushMove_def Map_delete_def Map_set_def Let_def)
next
  case False
  obtain s' where s': "switchActiveView e n s = Ok s'"
    using switchActiveView_Ok [OF assms, of s] by blast
  have "brushMove e n dname v s =
          Ok ((case v of None \<Rightarrow> Map_delete (brushes s') dname s'
               | Some iv \<Rightarrow> Map_set (brushes s') dname (d3_extent iv) s')
              \<lparr>needsUpdate := True, frames := Suc (frames s')\<rparr>)"
    using False s'
    by (cases v) (simp_all add: brushMove_def Map_delete_def Map_set_def Let_def)
  then show ?thesis using s' by auto
qed

lemma invariant_fire:
  assumes "invariant e s"
  shows "invariant e (state_of (fire e ev s))"
proof (cases ev)
  case (Mouseover n)
  show ?thesis
  proof (cases "\<exists>d. map_of (views e) n = Some (View1D d) \<and> activeView s \<noteq> Some n")
    case True
    then obtain d where d: "map_of (views e) n = Some (View1D d)" "activeView s \<noteq> Some n"
      by blast
    then have "fire e ev s = switchActiveView e n s"
      using Mouseover by (simp add: on_mouseover_def)
    then show ?thesis using invariant_switch [OF assms d(1)] by simp
  next
    case False
    then have "fire e ev s = Ok s"
      using Mouseover by (auto simp: on_mouseover_def split: option.splits view.splits)
    then show ?thesis using assms by simp
  qed
next
  case (Brush n v)
  show ?thesis
  proof (cases "\<exists>d. map_of (views e) n = Some (View1D d)")
    case True
    then obtain d where d: "map_of (views e) n = Some (View1D d)" ..
    then have f: "fire e ev s = brushMove e n (name d) v s"
      using Brush by (simp add: on_brush_def)
    from brushMove_state [OF d, of s "name d" v]
    obtain s1 where s1: "s1 = s \<or> s1 = state_of (switchActiveView e n s)"
      "brushMove e n (name d) v s =
         Ok ((case v of None \<Rightarrow> Map_delete (brushes s1) (name d) s1
              | Some iv \<Rightarrow> Map_set (brushes s1) (name d) (d3_extent iv) s1)
             \<lparr>needsUpdate := True, frames := Suc (frames s1)\<rparr>)"
      by blast
    have "invariant e s1"
      using s1(1) assms invariant_switch [OF assms d] by auto
    then show ?thesis
      using f s1(2)
        invariant_set [where s = s1 and v = v and dname = "name d" and k = "Suc (frames s1)"]
      by simp
  next
    case False
    then have "fire e ev s = Ok s"
      using Brush by (auto simp: on_brush_def split: option.splits view.splits)
    then show ?thesis using assms by simp
  qed
next
  case Frame
  show ?thesis
  proof (cases "frames s")
    case 0
    then show ?thesis using Frame assms by (simp add: on_frame_def)
  next
    case (Suc k)
    obtain t where "state_of (update e (s\<lparr>frames := k\<rparr>))
                      = s\<lparr>frames := k, needsUpdate := False, tables := t\<rparr>"
      using update_state [of e "s\<lparr>frames := k\<rparr>"] by auto
    then show ?thesis
      using Frame Suc invariant_tables [OF assms, where k = k and b = False and t = t]
      by (simp add: on_frame_def)
  qed
qed

lemma invariant_run: "invariant e s \<Longrightarrow> invariant e (run e evs s)"
  by (induction evs arbitrary: s) (simp_all add: invariant_fire)

lemma reachable_invariant: "reachable e s \<Longrightarrow> invariant e s"
  by (induction rule: reachable.induct) (simp_all add: invariant_initial invariant_fire)

lemma reachable_run: "reachable e s \<Longrightarrow> reachable e (run e evs s)"
  by (induction evs arbitrary: s) (simp_all add: reachable.step)

lemma reachable_brushed: "reachable flights brushed"
proof -
  have "brushed = run flights [Brush ''ARR_DELAY'' (Some (50, 10))] initial"
    by (simp add: on_brush_def flights_def brushMove_def initial_def switchActiveView_def
          getActiveView_def ARR_DELAY_def Let_def new_Map_def the_brushes_def Map_delete_def
          Map_set_def d3_extent_def brushed_def omit_def)
  then show ?thesis
    using reachable_run [OF reachable.start,
            where e = flights and evs = "[Brush ''ARR_DELAY'' (Some (50, 10))]"]
    by (simp del: run.simps)
qed

lemma reachable_unbrushed: "reachable flights unbrushed"
proof -
  have "unbrushed
          = run flights [Brush ''ARR_DELAY'' (Some (50, 10)), Brush ''ARR_DELAY'' None] initial"
    by (simp add: on_brush_def flights_def brushMove_def initial_def switchActiveView_def
          getActiveView_def ARR_DELAY_def Let_def new_Map_def the_brushes_def Map_delete_def
          Map_set_def d3_extent_def brushed_def unbrushed_def omit_def)
  then show ?thesis
    using reachable_run [OF reachable.start, where e = flights
            and evs = "[Brush ''ARR_DELAY'' (Some (50, 10)), Brush ''ARR_DELAY'' None]"]
    by (simp del: run.simps)
qed

section \<open>Stored brushes are ordered\<close>

text \<open>
  Claim C9. A \<open>brushMove\<close> with an interval stores it with its smaller endpoint first,
  whichever way round it was given, and every brush stored in a reachable state has its
  low endpoint at or below its high endpoint.
\<close>

theorem stored_brush_normalized:
  assumes "reachable e s" and "map_of (views e) n = Some (View1D d)"
  shows "(\<exists>s'. brushMove e n dname (Some (x, y)) s = Ok s'
              \<and> the_brushes s' dname = Some (min x y, max x y))
         \<and> (\<forall>dn lo hi. the_brushes s dn = Some (lo, hi) \<longrightarrow> lo \<le> hi)"
proof
  from brushMove_state [OF assms(2), of s dname "Some (x, y)"]
  obtain s1 where s1: "s1 = s \<or> s1 = state_of (switchActiveView e n s)"
    "brushMove e n dname (Some (x, y)) s =
       Ok ((Map_set (brushes s1) dname (d3_extent (x, y)) s1)
           \<lparr>needsUpdate := True, frames := Suc (frames s1)\<rparr>)"
    by auto
  have "invariant e s1"
    using s1(1) reachable_invariant [OF assms(1)]
      invariant_switch [OF reachable_invariant [OF assms(1)] assms(2)]
    by auto
  then have "brushes s1 < length (maps s1)" by (simp add: invariant_def)
  then have "the_brushes ((Map_set (brushes s1) dname (d3_extent (x, y)) s1)
                \<lparr>needsUpdate := True, frames := Suc (frames s1)\<rparr>) dname
               = Some (min x y, max x y)"
    by (simp add: the_brushes_def Map_set_def d3_extent_def)
  then show "\<exists>s'. brushMove e n dname (Some (x, y)) s = Ok s'
              \<and> the_brushes s' dname = Some (min x y, max x y)"
    using s1(2) by simp
  show "\<forall>dn lo hi. the_brushes s dn = Some (lo, hi) \<longrightarrow> lo \<le> hi"
    using reachable_invariant [OF assms(1)] by (simp add: invariant_def)
qed

theorem stored_brush_normalized_witness:
  "reachable flights brushed
   \<and> map_of (views flights) ''DISTANCE'' = Some (View1D DISTANCE)
   \<and> (\<exists>s'. brushMove flights ''DISTANCE'' ''DISTANCE'' (Some (700, 300)) brushed = Ok s'
          \<and> the_brushes s' ''DISTANCE'' = Some (300, 700))
   \<and> the_brushes brushed ''ARR_DELAY'' = Some (10, 50) \<and> (10 :: rat) \<le> 50"
  using stored_brush_normalized [OF reachable_brushed flights_fields(3),
          of "''DISTANCE''" 700 300]
  by (simp add: reachable_brushed flights_fields brushed_fields)

section \<open>The active dimension and the filter context\<close>

text \<open>
  Claim C4, as the code has it. In a reachable state with an active view, that view is a
  histogram view, and the filter context of the latest \<open>loadData\<close>, whose cubes are the
  ones in \<open>data\<close>, has no entry for the active view's dimension. The controller's own
  brushes Map may have one: \<open>brushMove\<close> stores the active view's brush there and
  \<open>update\<close> reads it from there.
\<close>

theorem active_dimension_not_in_filter_context:
  assumes "reachable e s" and "activeView s = Some a"
  shows "\<exists>d calls fc.
           map_of (views e) a = Some (View1D d)
           \<and> loads s = calls @ [(View1D d, HISTOGRAM_WIDTH e, omit (views e) a, fc)]
           \<and> fc (name d) = None
           \<and> data s = Some (loadData e (View1D d) (HISTOGRAM_WIDTH e) (omit (views e) a) fc)"
  using reachable_invariant [OF assms(1)] assms(2) by (simp add: invariant_def)

theorem active_dimension_not_in_filter_context_witness:
  "reachable flights brushed \<and> activeView brushed = Some ''ARR_DELAY''
   \<and> (\<exists>d calls fc.
           map_of (views flights) ''ARR_DELAY'' = Some (View1D d)
           \<and> loads brushed
               = calls @ [(View1D d, HISTOGRAM_WIDTH flights, omit (views flights) ''ARR_DELAY'', fc)]
           \<and> fc (name d) = None
           \<and> data brushed = Some (loadData flights (View1D d) (HISTOGRAM_WIDTH flights)
                                    (omit (views flights) ''ARR_DELAY'') fc))"
  using active_dimension_not_in_filter_context [OF reachable_brushed brushed_fields(2)]
  by (simp add: reachable_brushed brushed_fields)

theorem active_brush_is_stored_counterexample:
  "reachable flights brushed \<and> activeView brushed = Some ''ARR_DELAY''
   \<and> map_of (views flights) ''ARR_DELAY'' = Some (View1D ARR_DELAY)
   \<and> the_brushes brushed (name ARR_DELAY) = Some (10, 50)"
  by (simp add: reachable_brushed brushed_fields flights_fields dimension_names)

section \<open>Lemmas about animation frames\<close>

lemma state_of_map_result: "state_of (map_result f r) = f (state_of r)"
  by (cases r) simp_all

lemma update1DView_frames:
  "update1DView e n d h (s\<lparr>frames := k\<rparr>)
     = map_result (\<lambda>u. u\<lparr>frames := k\<rparr>) (update1DView e n d h s)"
  by (cases "binConfig d") (simp_all add: update1DView_def updateView_def)

lemma update2DView_frames:
  "update2DView e n ds h (s\<lparr>frames := k\<rparr>)
     = map_result (\<lambda>u. u\<lparr>frames := k\<rparr>) (update2DView e n ds h s)"
  by (cases "binConfig (fst ds)"; cases "binConfig (snd ds)")
     (simp_all add: update2DView_def updateView_def)

lemma update_views_frames:
  "update_views e ab vs (s\<lparr>frames := k\<rparr>)
     = map_result (\<lambda>u. u\<lparr>frames := k\<rparr>) (update_views e ab vs s)"
proof (induction vs arbitrary: s)
  case Nil
  show ?case by simp
next
  case (Cons kv vs)
  obtain n v where kv: "kv = (n, v)" by (cases kv)
  show ?case
  proof (cases "Some n = activeView s")
    case True
    then show ?thesis using Cons.IH [of s] kv by simp
  next
    case False
    show ?thesis
    proof (cases "data s")
      case None
      then show ?thesis using False kv by simp
    next
      case (Some m)
      show ?thesis
      proof (cases "m n")
        case None
        then show ?thesis using False kv Some by simp
      next
        case (Some hists)
        let ?r = "case v of View1D d \<Rightarrow> update1DView e n d (slice e ab hists) s
                   | View2D ds \<Rightarrow> update2DView e n ds (slice e ab hists) s"
        let ?r' = "case v of
                     View1D d \<Rightarrow> update1DView e n d (slice e ab hists) (s\<lparr>frames := k\<rparr>)
                   | View2D ds \<Rightarrow> update2DView e n ds (slice e ab hists) (s\<lparr>frames := k\<rparr>)"
        have r': "?r' = map_result (\<lambda>u. u\<lparr>frames := k\<rparr>) ?r"
          by (cases v) (simp_all add: update1DView_frames update2DView_frames)
        have eq: "update_views e ab (kv # vs) s =
                (case ?r of Throw err s' \<Rightarrow> Throw err s' | Ok s' \<Rightarrow> update_views e ab vs s')"
          using False kv \<open>data s = Some m\<close> Some by simp
        have eq': "update_views e ab (kv # vs) (s\<lparr>frames := k\<rparr>) =
                (case ?r' of Throw err s' \<Rightarrow> Throw err s' | Ok s' \<Rightarrow> update_views e ab vs s')"
          using False kv \<open>data s = Some m\<close> Some by simp
        show ?thesis
        proof (cases ?r)
          case (Throw err s')
          then show ?thesis unfolding eq eq' r' by simp
        next
          case (Ok s')
          then show ?thesis unfolding eq eq' r' using Cons.IH [of s'] by simp
        qed
      qed
    qed
  qed
qed

lemma update_frames:
  "update e (s\<lparr>frames := k\<rparr>) = map_result (\<lambda>u. u\<lparr>frames := k\<rparr>) (update e s)"
proof (cases "needsUpdate s")
  case False
  then show ?thesis by (simp add: update_def)
next
  case True
  have ab: "\<And>d. activeBrush_of e d (s\<lparr>frames := k, needsUpdate := False\<rparr>)
              = activeBrush_of e d (s\<lparr>needsUpdate := False\<rparr>)"
    by (simp add: activeBrush_of_def the_brushes_def)
  have v: "getActiveView e (s\<lparr>frames := k, needsUpdate := False\<rparr>)
             = getActiveView e (s\<lparr>needsUpdate := False\<rparr>)"
    by (simp add: getActiveView_def)
  have sw: "s\<lparr>frames := k, needsUpdate := False\<rparr> = s\<lparr>needsUpdate := False, frames := k\<rparr>"
    by simp
  show ?thesis
  proof (cases "getActiveView e (s\<lparr>needsUpdate := False\<rparr>)")
    case None
    then show ?thesis using True v by (simp add: update_def Let_def)
  next
    case (Some av)
    show ?thesis
    proof (cases av)
      case (View1D d)
      then show ?thesis
        using True v Some ab [of d]
          update_views_frames [where e = e and vs = "views e" and k = k
            and ab = "activeBrush_of e d (s\<lparr>needsUpdate := False\<rparr>)"
            and s = "s\<lparr>needsUpdate := False\<rparr>"]
        by (simp add: update_def Let_def sw)
    next
      case (View2D ds)
      then show ?thesis using True v Some by (simp add: update_def Let_def)
    qed
  qed
qed

lemma update_idle: "\<not> needsUpdate (state_of (update e s))"
  using update_state [of e s] by auto

lemma on_frame_state:
  "frames s = Suc k \<Longrightarrow> state_of (on_frame e s) = (state_of (update e s))\<lparr>frames := k\<rparr>"
  by (simp add: on_frame_def update_frames state_of_map_result)

lemma run_frames:
  assumes "0 < k" and "k \<le> frames s"
  shows "run e (replicate k Frame) s = (state_of (update e s))\<lparr>frames := frames s - k\<rparr>"
  using assms
proof (induction k arbitrary: s)
  case 0
  then show ?case by simp
next
  case (Suc j)
  obtain f where f: "frames s = Suc f" using Suc.prems(2) by (cases "frames s") simp_all
  let ?s2 = "(state_of (update e s))\<lparr>frames := f\<rparr>"
  have step: "run e (replicate (Suc j) Frame) s = run e (replicate j Frame) ?s2"
    using on_frame_state [OF f, of e] by simp
  show ?case
  proof (cases j)
    case 0
    then show ?thesis using step f by simp
  next
    case (Suc i)
    have idle: "\<not> needsUpdate ?s2" using update_idle [of e s] by simp
    have "run e (replicate j Frame) ?s2 = (state_of (update e ?s2))\<lparr>frames := frames ?s2 - j\<rparr>"
      using Suc.IH [of ?s2] Suc Suc.prems(2) f by simp
    also have "\<dots> = (state_of (update e s))\<lparr>frames := frames s - Suc j\<rparr>"
      using update_clear [OF idle, of e] f by simp
    finally show ?thesis using step by simp
  qed
qed

lemma run_append: "run e (xs @ ys) s = run e ys (run e xs s)"
  by (induction xs arbitrary: s) simp_all

lemma reachable_initial: "reachable e initial"
  by (rule reachable.start)

lemma on_brush_valid:
  assumes "map_of (views e) n = Some (View1D d)" and "invariant e s"
  shows "\<exists>s'. on_brush e n v s = Ok s' \<and> needsUpdate s' \<and> frames s' = Suc (frames s)
           \<and> the_brushes s' (name d) = map_option d3_extent v \<and> activeView s' = Some n"
proof -
  from brushMove_state [OF assms(1), of s "name d" v]
  obtain s1 where s1: "s1 = s \<and> activeView s = Some n \<or> s1 = state_of (switchActiveView e n s)"
    "brushMove e n (name d) v s =
       Ok ((case v of None \<Rightarrow> Map_delete (brushes s1) (name d) s1
            | Some iv \<Rightarrow> Map_set (brushes s1) (name d) (d3_extent iv) s1)
           \<lparr>needsUpdate := True, frames := Suc (frames s1)\<rparr>)"
    by blast
  have inv1: "invariant e s1"
    using s1(1) assms(2) invariant_switch [OF assms(2,1)] by auto
  then have wf: "brushes s1 < length (maps s1)" by (simp add: invariant_def)
  have fr: "frames s1 = frames s" and act: "activeView s1 = Some n"
    using s1(1) switchActiveView_Ok [OF assms(1), of s] by auto
  let ?s' = "(case v of None \<Rightarrow> Map_delete (brushes s1) (name d) s1
            | Some iv \<Rightarrow> Map_set (brushes s1) (name d) (d3_extent iv) s1)
           \<lparr>needsUpdate := True, frames := Suc (frames s1)\<rparr>"
  have "needsUpdate ?s'" "frames ?s' = Suc (frames s)" "activeView ?s' = Some n"
    "the_brushes ?s' (name d) = map_option d3_extent v"
    using wf fr act
    by (cases v; simp add: Map_delete_def Map_set_def the_brushes_def)+
  moreover have "on_brush e n v s = Ok ?s'"
    using assms(1) s1(2) by (simp add: on_brush_def)
  ultimately show ?thesis by blast
qed

lemma run_brushes_frames:
  assumes "\<forall>ev \<in> set evs. \<exists>n v d. ev = Brush n v \<and> map_of (views e) n = Some (View1D d)"
    and "invariant e s"
  shows "frames (run e evs s) = frames s + length evs"
  using assms
proof (induction evs arbitrary: s)
  case Nil
  then show ?case by simp
next
  case (Cons ev evs)
  then obtain n v d where ev: "ev = Brush n v" "map_of (views e) n = Some (View1D d)"
    by auto
  obtain s' where s': "on_brush e n v s = Ok s'" "frames s' = Suc (frames s)"
    using on_brush_valid [OF ev(2) Cons.prems(2), of v] by blast
  have "invariant e s'"
    using invariant_fire [OF Cons.prems(2), of ev] ev(1) s'(1) by simp
  then have "frames (run e evs s') = frames s' + length evs"
    using Cons.IH Cons.prems(1) by simp
  then show ?case using ev(1) s' by simp
qed

section \<open>Lemmas about the rows\<close>

lemma concat_grid_length:
  "length (concat (map (\<lambda>x. map (f x) [0..<ky]) [0..<kx])) = kx * ky"
  by (induction kx) simp_all

lemma concat_grid_nth:
  assumes "x < kx" and "y < ky"
  shows "concat (map (\<lambda>x. map (f x) [0..<ky]) [0..<kx]) ! (x * ky + y) = f x y"
  using assms
proof (induction kx)
  case 0
  then show ?case by simp
next
  case (Suc kx)
  show ?case
  proof (cases "x < kx")
    case True
    have "x * ky + y < kx * ky"
    proof -
      have "x * ky + y < x * ky + ky" using Suc.prems(2) by simp
      also have "\<dots> = Suc x * ky" by simp
      also have "\<dots> \<le> kx * ky" using True by (intro mult_le_mono1) simp
      finally show ?thesis .
    qed
    then show ?thesis
      using Suc.IH [OF True Suc.prems(2)] by (simp add: nth_append concat_grid_length)
  next
    case False
    then have "x = kx" using Suc.prems(1) by simp
    then show ?thesis
      using Suc.prems(2) by (simp add: nth_append concat_grid_length)
  qed
qed

lemma rows1D_vector:
  assumes "shape hist = [k]"
  shows "length (rows1D unbin hist) = k"
    and "\<forall>x < k. rows1D unbin hist ! x = Some (Row1D (unbin x) (get1 hist x))"
  using assms by (simp_all add: rows1D_def shape_at_def nd_size_def)

lemma rows2D_matrix:
  assumes "shape heat = [kx, ky]"
  shows "length (rows2D ux uy heat) = kx * ky"
    and "\<forall>x < kx. \<forall>y < ky.
           rows2D ux uy heat ! (x * ky + y) = Some (Row2D (ux x) (uy y) (get2 heat x y))"
proof -
  have sh: "shape_at heat 0 = kx" "shape_at heat (Suc 0) = ky" "nd_size heat = kx * ky"
    using assms by (simp_all add: shape_at_def nd_size_def)
  show "length (rows2D ux uy heat) = kx * ky"
    by (simp add: rows2D_def sh concat_grid_length)
  show "\<forall>x < kx. \<forall>y < ky.
           rows2D ux uy heat ! (x * ky + y) = Some (Row2D (ux x) (uy y) (get2 heat x y))"
    by (simp add: rows2D_def sh
          concat_grid_nth [where f = "\<lambda>x y. Some (Row2D (ux x) (uy y) (get2 heat x y))"])
qed

section \<open>The rows handed to a view\<close>

text \<open>
  Claim C8. \<open>update1DView\<close> hands the view one \<open>{key, value}\<close> row for every bin of the
  histogram, in bin order, whose key is \<open>binToData\<close> of the view's bin configuration at
  the bin index; \<open>update2DView\<close> hands the view one \<open>{keyX, keyY, value}\<close> row for every
  pair of bins of the heatmap, row by row, with the keys taken likewise from the two bin
  configurations.
\<close>

theorem rows_carry_data_keys:
  assumes "binConfig d = Some cfg" and "shape hist = [k]"
    and "binConfig dx = Some cfgX" and "binConfig dy = Some cfgY" and "shape heat = [kx, ky]"
  shows "(\<exists>rows. update1DView e n d hist s = Ok (s\<lparr>tables := tables s @ [(n, rows)]\<rparr>)
            \<and> length rows = k
            \<and> (\<forall>x < k. rows ! x = Some (Row1D (binToData e cfg x) (get1 hist x))))
       \<and> (\<exists>rows. update2DView e n (dx, dy) heat s = Ok (s\<lparr>tables := tables s @ [(n, rows)]\<rparr>)
            \<and> length rows = kx * ky
            \<and> (\<forall>x < kx. \<forall>y < ky.
                  rows ! (x * ky + y)
                    = Some (Row2D (binToData e cfgX x) (binToData e cfgY y) (get2 heat x y))))"
proof
  have "update1DView e n d hist s
          = Ok (s\<lparr>tables := tables s @ [(n, rows1D (binToData e cfg) hist)]\<rparr>)"
    using assms(1) by (simp add: update1DView_def updateView_def)
  then show "\<exists>rows. update1DView e n d hist s = Ok (s\<lparr>tables := tables s @ [(n, rows)]\<rparr>)
            \<and> length rows = k
            \<and> (\<forall>x < k. rows ! x = Some (Row1D (binToData e cfg x) (get1 hist x)))"
    using rows1D_vector [OF assms(2), of "binToData e cfg"] by blast
  have "update2DView e n (dx, dy) heat s
          = Ok (s\<lparr>tables := tables s
                   @ [(n, rows2D (binToData e cfgX) (binToData e cfgY) heat)]\<rparr>)"
    using assms(3,4) by (simp add: update2DView_def updateView_def)
  then show "\<exists>rows. update2DView e n (dx, dy) heat s = Ok (s\<lparr>tables := tables s @ [(n, rows)]\<rparr>)
            \<and> length rows = kx * ky
            \<and> (\<forall>x < kx. \<forall>y < ky.
                  rows ! (x * ky + y)
                    = Some (Row2D (binToData e cfgX x) (binToData e cfgY y) (get2 heat x y)))"
    using rows2D_matrix [OF assms(5), of "binToData e cfgX" "binToData e cfgY"] by blast
qed


lemma binConfigs:
  "binConfig DISTANCE = Some \<lparr>start = 0, step = 100, stop = 2000\<rparr>"
  "binConfig DEP_DELAY = Some \<lparr>start = - 10, step = 5, stop = 100\<rparr>"
  "binConfig ARR_DELAY = Some \<lparr>start = - 10, step = 5, stop = 100\<rparr>"
  by (simp_all add: DISTANCE_def DEP_DELAY_def ARR_DELAY_def)

theorem rows_carry_data_keys_witness:
  "(\<exists>rows. update1DView flights ''DISTANCE'' DISTANCE \<lparr>shape = [2], buffer = [182, 364]\<rparr>
             initial
           = Ok (initial\<lparr>tables := tables initial @ [(''DISTANCE'', rows)]\<rparr>)
         \<and> length rows = 2 \<and> rows ! 1 = Some (Row1D 100 (Some 364)))
   \<and> (\<exists>rows. update2DView flights ''DEP_DELAY_ARR_DELAY'' (DEP_DELAY, ARR_DELAY)
             \<lparr>shape = [2, 3], buffer = [1, 2, 3, 4, 5, 6]\<rparr> initial
           = Ok (initial\<lparr>tables := tables initial @ [(''DEP_DELAY_ARR_DELAY'', rows)]\<rparr>)
         \<and> length rows = 6 \<and> rows ! 5 = Some (Row2D (- 5) 0 (Some 6)))"
proof -
  let ?hist = "\<lparr>shape = [2], buffer = [182, 364]\<rparr>"
  let ?heat = "\<lparr>shape = [2, 3], buffer = [1, 2, 3, 4, 5, 6]\<rparr>"
  have h2: "shape ?hist = [2]" and h5: "shape ?heat = [2, 3]" by simp_all
  from rows_carry_data_keys [OF binConfigs(1) h2 binConfigs(2,3) h5, of flights _ initial]
  obtain r1 r2 where
    r1: "update1DView flights ''DISTANCE'' DISTANCE ?hist initial
           = Ok (initial\<lparr>tables := tables initial @ [(''DISTANCE'', r1)]\<rparr>)"
      "length r1 = 2"
      "\<forall>x < 2. r1 ! x = Some (Row1D (binToData flights \<lparr>start = 0, step = 100, stop = 2000\<rparr> x)
                                    (get1 ?hist x))"
    and r2: "update2DView flights ''DEP_DELAY_ARR_DELAY'' (DEP_DELAY, ARR_DELAY) ?heat initial
           = Ok (initial\<lparr>tables := tables initial @ [(''DEP_DELAY_ARR_DELAY'', r2)]\<rparr>)"
      "length r2 = 2 * 3"
      "\<forall>x < 2. \<forall>y < 3. r2 ! (x * 3 + y)
           = Some (Row2D (binToData flights \<lparr>start = - 10, step = 5, stop = 100\<rparr> x)
                         (binToData flights \<lparr>start = - 10, step = 5, stop = 100\<rparr> y)
                         (get2 ?heat x y))"
    by blast
  have "r1 ! 1 = Some (Row1D 100 (Some 364))"
    using r1(3) [rule_format, of 1] by (simp add: flights_def get1_def)
  moreover have "r2 ! (1 * 3 + 2) = Some (Row2D (- 5) 0 (Some 6))"
    using r2(3) [rule_format, of 1 2] by (simp add: flights_def get2_def shape_at_def)
  ultimately show ?thesis using r1(1,2) r2(1,2) by auto
qed

section \<open>Lemmas about snapping\<close>

lemma clamp_bounds:
  assumes "0 \<le> m"
  shows "0 \<le> clamp i (0, m)" and "clamp i (0, m) \<le> m"
  using assms by (simp_all add: clamp_def)

lemma clamp_round_nearest:
  fixes x :: rat
  assumes "0 \<le> j" and "j \<le> m"
  shows "\<bar>of_int (clamp (round x) (0, m)) - x\<bar> \<le> \<bar>of_int j - x\<bar>"
proof -
  have lo: "x - 1 / 2 \<le> of_int (round x)" by (rule of_int_round_ge)
  have hi: "of_int (round x) \<le> x + 1 / 2" by (rule of_int_round_le)
  consider "round x < 0" | "m < round x" | "0 \<le> round x" "round x \<le> m" by linarith
  then show ?thesis
  proof cases
    case 1
    then have c: "clamp (round x) (0, m) = 0" using assms by (simp add: clamp_def)
    have "round x \<le> - 1" using 1 by simp
    then have "(of_int (round x) :: rat) \<le> of_int (- 1)" by (simp only: of_int_le_iff)
    then have "(of_int (round x) :: rat) \<le> - 1" by simp
    then have "x < 0" using lo by linarith
    moreover have "(0 :: rat) \<le> of_int j" using assms(1) by simp
    ultimately show ?thesis unfolding c by simp
  next
    case 2
    then have c: "clamp (round x) (0, m) = m" using assms by (simp add: clamp_def)
    have "(of_int m :: rat) + 1 \<le> of_int (round x)"
      using 2 by (metis of_int_1 of_int_add of_int_le_iff zless_imp_add1_zle)
    then have "of_int m < x" using hi by linarith
    moreover have "(of_int j :: rat) \<le> of_int m" using assms(2) by simp
    ultimately show ?thesis unfolding c by linarith
  next
    case 3
    then have c: "clamp (round x) (0, m) = round x" by (simp add: clamp_def)
    show ?thesis
      unfolding c using round_diff_minimal [of x j] by (simp add: abs_minus_commute)
  qed
qed

lemma boundary_distance:
  fixes sp :: rat
  assumes "0 < sp"
  shows "\<bar>boundary st sp i - b\<bar> = sp * \<bar>of_int i - (b - st) / sp\<bar>"
proof -
  have "boundary st sp i - b = sp * (of_int i - (b - st) / sp)"
    using assms by (simp add: boundary_def field_simps)
  then show ?thesis using assms by (simp add: abs_mult)
qed

lemma stepSize_pos:
  assumes "fst ext < snd ext" and "0 < w"
  shows "0 < stepSize ext w"
  using assms by (simp add: stepSize_def)


section \<open>Snapping a brush endpoint\<close>

text \<open>
  Claim C2, as the code has it. \<open>update\<close> maps each endpoint of the brush on the active
  dimension through \<open>binNumberFunction\<close> at the extent's start and the step
  \<open>stepSize(extent, HISTOGRAM_WIDTH)\<close>, and clamps the result into
  \<open>[0, HISTOGRAM_WIDTH - 1]\<close>. When \<open>binNumberFunction\<close> rounds to the nearest
  boundary, the index is that of the boundary nearest to the endpoint among the boundaries
  \<open>0, ..., HISTOGRAM_WIDTH - 1\<close>.
\<close>

theorem snapping_clamps_to_pixel_range:
  assumes "0 < HISTOGRAM_WIDTH e" and "the_brushes s (name d) = Some (lo, hi)"
    and "b = lo \<or> b = hi"
  shows "activeBrush_of e d s = Some (pixel e d lo, pixel e d hi)
       \<and> 0 \<le> pixel e d b \<and> pixel e d b \<le> int (HISTOGRAM_WIDTH e) - 1
       \<and> (binNumberFunction e = round_to_nearest \<longrightarrow> fst (extent d) < snd (extent d) \<longrightarrow>
            (\<forall>j. 0 \<le> j \<longrightarrow> j \<le> int (HISTOGRAM_WIDTH e) - 1 \<longrightarrow>
               \<bar>boundary (fst (extent d)) (stepSize (extent d) (HISTOGRAM_WIDTH e)) (pixel e d b) - b\<bar>
               \<le> \<bar>boundary (fst (extent d)) (stepSize (extent d) (HISTOGRAM_WIDTH e)) j - b\<bar>))"
proof (intro conjI impI allI)
  let ?m = "int (HISTOGRAM_WIDTH e) - 1"
  have m: "0 \<le> ?m" using assms(1) by simp
  show "activeBrush_of e d s = Some (pixel e d lo, pixel e d hi)"
    using assms(2) by (simp add: activeBrush_of_def)
  show "0 \<le> pixel e d b" unfolding pixel_def by (rule clamp_bounds(1) [OF m])
  show "pixel e d b \<le> ?m" unfolding pixel_def by (rule clamp_bounds(2) [OF m])
  fix j :: int
  assume r: "binNumberFunction e = round_to_nearest" and ext: "fst (extent d) < snd (extent d)"
    and j: "0 \<le> j" "j \<le> ?m"
  let ?st = "fst (extent d)" and ?sp = "stepSize (extent d) (HISTOGRAM_WIDTH e)"
  have sp: "0 < ?sp" using ext assms(1) by (rule stepSize_pos)
  have p: "pixel e d b = clamp (round ((b - ?st) / ?sp)) (0, ?m)"
    using r by (simp add: pixel_def round_to_nearest_def)
  have "\<bar>of_int (pixel e d b) - (b - ?st) / ?sp\<bar> \<le> \<bar>of_int j - (b - ?st) / ?sp\<bar>"
    unfolding p using j by (rule clamp_round_nearest)
  then have "?sp * \<bar>of_int (pixel e d b) - (b - ?st) / ?sp\<bar>
               \<le> ?sp * \<bar>of_int j - (b - ?st) / ?sp\<bar>"
    using sp by (simp add: mult_le_cancel_left_pos)
  then show "\<bar>boundary ?st ?sp (pixel e d b) - b\<bar> \<le> \<bar>boundary ?st ?sp j - b\<bar>"
    by (simp only: boundary_distance [OF sp])
qed

lemma ARR_DELAY_extent: "extent ARR_DELAY = (- 10, 100)"
  by (simp add: ARR_DELAY_def)

theorem snapping_clamps_to_pixel_range_witness:
  "0 < HISTOGRAM_WIDTH flights \<and> the_brushes brushed (name ARR_DELAY) = Some (10, 50)
   \<and> activeBrush_of flights ARR_DELAY brushed = Some (91, 273)
   \<and> pixel flights ARR_DELAY 10 = 91
   \<and> \<bar>boundary (- 10) (stepSize (- 10, 100) 500) 91 - 10\<bar>
       \<le> \<bar>boundary (- 10) (stepSize (- 10, 100) 500) 90 - 10\<bar>"
proof -
  have h1: "0 < HISTOGRAM_WIDTH flights" by (simp add: flights_fields)
  have h2: "the_brushes brushed (name ARR_DELAY) = Some (10, 50)"
    by (simp add: brushed_fields dimension_names)
  have h3: "(10 :: rat) = 10 \<or> (10 :: rat) = 50" by simp
  from snapping_clamps_to_pixel_range [OF h1 h2 h3]
  have a: "activeBrush_of flights ARR_DELAY brushed
             = Some (pixel flights ARR_DELAY 10, pixel flights ARR_DELAY 50)"
    and n: "\<forall>j. 0 \<le> j \<longrightarrow> j \<le> int (HISTOGRAM_WIDTH flights) - 1 \<longrightarrow>
               \<bar>boundary (fst (extent ARR_DELAY))
                  (stepSize (extent ARR_DELAY) (HISTOGRAM_WIDTH flights))
                  (pixel flights ARR_DELAY 10) - 10\<bar>
               \<le> \<bar>boundary (fst (extent ARR_DELAY))
                    (stepSize (extent ARR_DELAY) (HISTOGRAM_WIDTH flights)) j - 10\<bar>"
    by (simp_all add: flights_fields ARR_DELAY_extent)
  show ?thesis
    using h1 h2 a n [rule_format, of 90]
    by (simp add: pixels_flights flights_fields ARR_DELAY_extent)
qed

theorem clamp_stops_below_last_boundary_counterexample:
  "pixel flights ARR_DELAY 100 = 499
   \<and> boundary (- 10) (stepSize (- 10, 100) 500) 500 = 100
   \<and> clamp (round_to_nearest (- 10) (stepSize (- 10, 100) 500) 100) (0, 500) = 500
   \<and> (\<forall>f. pixel (flights\<lparr>binNumberFunction := f\<rparr>) ARR_DELAY 100 \<le> 499)"
  by (simp add: pixel_def flights_def ARR_DELAY_def stepSize_def round_to_nearest_def clamp_def
        boundary_def)

section \<open>The arrival delay scenario\<close>

text \<open>
  Claim C3. With the arrival delay dimension of extent \<open>[-10, 100]\<close> active at width 500
  and \<open>binNumberFunction\<close> rounding to the nearest boundary, the brush \<open>[10, 50]\<close> snaps
  to the indices \<open>91 = round((10 - (-10)) / 110 * 500)\<close> and
  \<open>273 = round((50 - (-10)) / 110 * 500)\<close>, and \<open>update\<close> hands every passive view the
  rows of slice 273 minus slice 91 of its cube.
\<close>

theorem arr_delay_scenario:
  assumes "HISTOGRAM_WIDTH e = 500" and "binNumberFunction e = round_to_nearest"
    and "extent d = (- 10, 100)" and "the_brushes s (name d) = Some (10, 50)"
    and "needsUpdate s" and "activeView s = Some a"
    and "map_of (views e) a = Some (View1D d)" and "data s = Some m"
    and "\<forall>kv \<in> set (omit (views e) a).
           m (fst kv) = Some (cube (fst kv)) \<and>
           rows_of e (snd kv) (spec_query 500 (cube (fst kv)) (Some (91, 273)))
             = Some (tbl (fst kv))"
  shows "snapped e d s = Some (91, 273)
       \<and> round ((10 - (- 10)) / 110 * 500 :: rat) = 91
       \<and> round ((50 - (- 10)) / 110 * 500 :: rat) = 273
       \<and> update e s =
           Ok (s\<lparr>needsUpdate := False,
                 tables := tables s @ map (\<lambda>kv. (fst kv, tbl (fst kv))) (omit (views e) a)\<rparr>)"
proof (intro conjI)
  have p: "pixel e d 10 = 91" "pixel e d 50 = 273"
    using assms(1-3)
    by (simp_all add: pixel_def stepSize_def round_to_nearest_def clamp_def round_def
          floor_eq_iff)
  then have ab: "activeBrush_of e d s = Some (91, 273)"
    using assms(4) by (simp add: activeBrush_of_def)
  then show "snapped e d s = Some (91, 273)" by (simp add: snapped_def)
  show "round ((10 - (- 10)) / 110 * 500 :: rat) = 91"
    by (simp add: round_def floor_eq_iff)
  show "round ((50 - (- 10)) / 110 * 500 :: rat) = 273"
    by (simp add: round_def floor_eq_iff)
  have "\<forall>kv \<in> set (omit (views e) a).
           \<exists>c. m (fst kv) = Some c \<and>
               rows_of e (snd kv) (slice e (activeBrush_of e d s) c) = Some (tbl (fst kv))"
    using assms(9) by (simp add: ab slice_spec_query assms(1))
  then show "update e s =
           Ok (s\<lparr>needsUpdate := False,
                 tables := tables s @ map (\<lambda>kv. (fst kv, tbl (fst kv))) (omit (views e) a)\<rparr>)"
    by (rule update_tables [OF assms(5-8)])
qed

theorem arr_delay_scenario_witness:
  "HISTOGRAM_WIDTH flights = 500 \<and> binNumberFunction flights = round_to_nearest
   \<and> extent ARR_DELAY = (- 10, 100) \<and> the_brushes brushed (name ARR_DELAY) = Some (10, 50)
   \<and> snapped flights ARR_DELAY brushed = Some (91, 273)
   \<and> spec_query 500 (counting_cube 500 [2]) (Some (91, 273)) = \<lparr>shape = [2], buffer = [182, 364]\<rparr>
   \<and> update flights brushed =
     Ok (brushed\<lparr>needsUpdate := False,
           tables := [(''DISTANCE'', [Some (Row1D 0 (Some 182)), Some (Row1D 100 (Some 364))]),
                      (''DEP_DELAY_ARR_DELAY'',
                       [Some (Row2D (- 10) (- 10) (Some 182)),
                        Some (Row2D (- 10) (- 5) (Some 364))])]\<rparr>)"
proof -
  let ?cube = "\<lambda>n. counting_cube 500 (if n = ''DISTANCE'' then [2] else [Suc 0, 2])"
  let ?tbl = "\<lambda>n. if n = ''DISTANCE''
                 then [Some (Row1D 0 (Some 182)), Some (Row1D 100 (Some 364))]
                 else [Some (Row2D (- 10) (- 10) (Some 182)), Some (Row2D (- 10) (- 5) (Some 364))]"
  let ?m = "counting_db (View1D ARR_DELAY) 500 (omit (views flights) ''ARR_DELAY'') Map.empty"
  have h4: "the_brushes brushed (name ARR_DELAY) = Some (10, 50)"
    by (simp add: brushed_fields dimension_names)
  have h9: "\<forall>kv \<in> set (omit (views flights) ''ARR_DELAY'').
           ?m (fst kv) = Some (?cube (fst kv)) \<and>
           rows_of flights (snd kv) (spec_query 500 (?cube (fst kv)) (Some (91, 273)))
             = Some (?tbl (fst kv))"
    by (simp add: counting_db_passive query_brushed rows_brushed flights_passive
          del: rows_of.simps)
  show ?thesis
    using arr_delay_scenario [OF flights_fields(1,4) ARR_DELAY_extent h4 brushed_fields(1,2)
            flights_fields(2) brushed_fields(3) h9]
    by (simp add: flights_fields ARR_DELAY_extent dimension_names query_brushed flights_passive
          brushed_fields)
qed

section \<open>Lemmas about brush moves\<close>

lemma brushMove_tables: "tables (state_of (brushMove e n dname v s)) = tables s"
proof (cases "activeView s = Some n")
  case True
  then show ?thesis
    by (cases v) (simp_all add: brushMove_def Map_delete_def Map_set_def Let_def)
next
  case False
  show ?thesis
  proof (cases "map_of (views e) n")
    case None
    obtain s' where "switchActiveView e n s = Throw TypeError s'" "tables s' = tables s"
      using switchActiveView_Throw [OF None, of s] by blast
    then show ?thesis using False by (simp add: brushMove_def)
  next
    case (Some av)
    obtain s' where "switchActiveView e n s = Ok s'" "tables s' = tables s"
      using switchActiveView_Ok [OF Some, of s] by blast
    then show ?thesis
      using False
      by (cases v) (simp_all add: brushMove_def Map_delete_def Map_set_def Let_def)
  qed
qed

lemma on_brush_tables: "tables (state_of (on_brush e n v s)) = tables s"
  by (auto simp: on_brush_def brushMove_tables split: option.splits view.splits)

lemma run_brushes_tables:
  assumes "\<forall>ev \<in> set evs. \<exists>n v. ev = Brush n v"
  shows "tables (run e evs s) = tables s"
  using assms
proof (induction evs arbitrary: s)
  case Nil
  then show ?case by simp
next
  case (Cons ev evs)
  then obtain n v where ev: "ev = Brush n v" by auto
  have "tables (run e evs (state_of (on_brush e n v s))) = tables (state_of (on_brush e n v s))"
    using Cons.IH Cons.prems by simp
  then show ?case using ev by (simp add: on_brush_tables)
qed


section \<open>Coalescing of updates\<close>

text \<open>
  Claim C7. Every \<open>brushMove\<close> sets \<open>needsUpdate\<close> and asks for an animation frame,
  and hands nothing to any view. When the frames asked for by a sequence of brush moves
  run, the first \<open>update\<close> works on the state the last brush move left, in which the
  brush is the last one given, and clears \<open>needsUpdate\<close>; every later \<open>update\<close>
  finds it clear and changes nothing. So after all the frames each passive view has been
  handed one table, made from the last brush alone.
\<close>

theorem brushMoves_coalesce:
  assumes "reachable e s" and "evs \<noteq> []"
    and "\<forall>ev \<in> set evs. \<exists>n v d. ev = Brush n v \<and> map_of (views e) n = Some (View1D d)"
    and "last evs = Brush n v" and "map_of (views e) n = Some (View1D d)"
  shows "needsUpdate (run e evs s)
         \<and> frames (run e evs s) = frames s + length evs
         \<and> tables (run e evs s) = tables s
         \<and> the_brushes (run e evs s) (name d) = map_option d3_extent v
         \<and> run e (replicate (frames (run e evs s)) Frame) (run e evs s)
             = (state_of (update e (run e evs s)))\<lparr>frames := 0\<rparr>
         \<and> \<not> needsUpdate (state_of (update e (run e evs s)))
         \<and> update e (state_of (update e (run e evs s))) = Ok (state_of (update e (run e evs s)))
         \<and> (\<forall>t. \<not> needsUpdate t \<longrightarrow> update e t = Ok t)
         \<and> (\<forall>m tbl.
               data (run e evs s) = Some m \<longrightarrow>
               (\<forall>kv \<in> set (omit (views e) n).
                  \<exists>c. m (fst kv) = Some c \<and>
                      rows_of e (snd kv)
                        (slice e (map_option (\<lambda>iv. (pixel e d (fst iv), pixel e d (snd iv)))
                                             (map_option d3_extent v)) c)
                        = Some (tbl (fst kv))) \<longrightarrow>
               tables (run e (replicate (frames (run e evs s)) Frame) (run e evs s))
                 = tables s @ map (\<lambda>kv. (fst kv, tbl (fst kv))) (omit (views e) n))"
proof -
  let ?s1 = "run e evs s"
  have inv: "invariant e s" using reachable_invariant [OF assms(1)] .
  have evs: "evs = butlast evs @ [Brush n v]"
    using assms(2,4) by (metis append_butlast_last_id)
  let ?s0 = "run e (butlast evs) s"
  have inv0: "invariant e ?s0" using invariant_run [OF inv] .
  obtain s' where s': "on_brush e n v ?s0 = Ok s'" "needsUpdate s'"
    "the_brushes s' (name d) = map_option d3_extent v" "activeView s' = Some n"
    using on_brush_valid [OF assms(5) inv0, of v] by blast
  have "run e (butlast evs @ [Brush n v]) s = s'"
    using s'(1) by (simp add: run_append)
  then have s1: "?s1 = s'" using evs by simp
  have nu: "needsUpdate ?s1" and br: "the_brushes ?s1 (name d) = map_option d3_extent v"
    and act: "activeView ?s1 = Some n"
    using s1 s'(2-4) by simp_all
  have fr: "frames ?s1 = frames s + length evs"
    using run_brushes_frames [OF assms(3) inv] .
  then have pos: "0 < frames ?s1" using assms(2) by simp
  have "\<forall>ev \<in> set evs. \<exists>n v. ev = Brush n v" using assms(3) by blast
  then have tb: "tables ?s1 = tables s" by (rule run_brushes_tables)
  have idle: "\<not> needsUpdate (state_of (update e ?s1))" by (rule update_idle)
  have "run e (replicate (frames ?s1) Frame) ?s1
          = (state_of (update e ?s1))\<lparr>frames := frames ?s1 - frames ?s1\<rparr>"
    using pos by (intro run_frames) simp_all
  then have all: "run e (replicate (frames ?s1) Frame) ?s1
                    = (state_of (update e ?s1))\<lparr>frames := 0\<rparr>"
    by simp
  have once: "tables (run e (replicate (frames ?s1) Frame) ?s1)
                 = tables s @ map (\<lambda>kv. (fst kv, tbl (fst kv))) (omit (views e) n)"
    if m: "data ?s1 = Some m"
      and rows: "\<forall>kv \<in> set (omit (views e) n).
                  \<exists>c. m (fst kv) = Some c \<and>
                      rows_of e (snd kv)
                        (slice e (map_option (\<lambda>iv. (pixel e d (fst iv), pixel e d (snd iv)))
                                             (map_option d3_extent v)) c)
                        = Some (tbl (fst kv))"
    for m tbl
  proof -
    have ab: "activeBrush_of e d ?s1
                = map_option (\<lambda>iv. (pixel e d (fst iv), pixel e d (snd iv)))
                             (map_option d3_extent v)"
      using br by (cases v) (simp_all add: activeBrush_of_def)
    have "\<forall>kv \<in> set (omit (views e) n).
             \<exists>c. m (fst kv) = Some c \<and>
                 rows_of e (snd kv) (slice e (activeBrush_of e d ?s1) c) = Some (tbl (fst kv))"
      using rows unfolding ab .
    from update_tables [OF nu act assms(5) m this]
    have "tables (state_of (update e ?s1))
            = tables ?s1 @ map (\<lambda>kv. (fst kv, tbl (fst kv))) (omit (views e) n)"
      by simp
    then show ?thesis using all tb by simp
  qed
  show ?thesis
    using nu fr tb br all idle update_clear [OF idle, of e] update_clear once by blast
qed


lemma run_two_brushes:
  "run flights [Brush ''ARR_DELAY'' (Some (0, 20)), Brush ''ARR_DELAY'' (Some (50, 10))] initial
     = brushed\<lparr>frames := 2\<rparr>"
  by (simp add: on_brush_def flights_def brushMove_def initial_def switchActiveView_def
        getActiveView_def ARR_DELAY_def Let_def new_Map_def the_brushes_def Map_delete_def
        Map_set_def d3_extent_def brushed_def omit_def)

theorem brushMoves_coalesce_witness:
  "reachable flights initial
   \<and> needsUpdate (run flights [Brush ''ARR_DELAY'' (Some (0, 20)),
                                  Brush ''ARR_DELAY'' (Some (50, 10))] initial)
   \<and> frames (run flights [Brush ''ARR_DELAY'' (Some (0, 20)),
                              Brush ''ARR_DELAY'' (Some (50, 10))] initial) = 2
   \<and> tables (run flights [Brush ''ARR_DELAY'' (Some (0, 20)),
                              Brush ''ARR_DELAY'' (Some (50, 10))] initial) = []
   \<and> the_brushes (run flights [Brush ''ARR_DELAY'' (Some (0, 20)),
                                   Brush ''ARR_DELAY'' (Some (50, 10))] initial) ''ARR_DELAY''
       = Some (10, 50)
   \<and> run flights [Frame, Frame]
         (run flights [Brush ''ARR_DELAY'' (Some (0, 20)),
                       Brush ''ARR_DELAY'' (Some (50, 10))] initial)
       = (state_of (update flights
            (run flights [Brush ''ARR_DELAY'' (Some (0, 20)),
                          Brush ''ARR_DELAY'' (Some (50, 10))] initial)))\<lparr>frames := 0\<rparr>
   \<and> tables (run flights [Frame, Frame]
         (run flights [Brush ''ARR_DELAY'' (Some (0, 20)),
                       Brush ''ARR_DELAY'' (Some (50, 10))] initial))
       = [(''DISTANCE'', [Some (Row1D 0 (Some 182)), Some (Row1D 100 (Some 364))]),
          (''DEP_DELAY_ARR_DELAY'',
           [Some (Row2D (- 10) (- 10) (Some 182)), Some (Row2D (- 10) (- 5) (Some 364))])]"
proof -
  let ?evs = "[Brush ''ARR_DELAY'' (Some (0, 20)), Brush ''ARR_DELAY'' (Some (50, 10))]"
  let ?s1 = "run flights ?evs initial"
  let ?m = "counting_db (View1D ARR_DELAY) 500 (omit (views flights) ''ARR_DELAY'') Map.empty"
  let ?tbl = "\<lambda>n. if n = ''DISTANCE''
                 then [Some (Row1D 0 (Some 182)), Some (Row1D 100 (Some 364))]
                 else [Some (Row2D (- 10) (- 10) (Some 182)), Some (Row2D (- 10) (- 5) (Some 364))]"
  have h2: "?evs \<noteq> []" by simp
  have h3: "\<forall>ev \<in> set ?evs. \<exists>n v d. ev = Brush n v
              \<and> map_of (views flights) n = Some (View1D d)"
    by (simp add: flights_fields)
  have h4: "last ?evs = Brush ''ARR_DELAY'' (Some (50, 10))" by simp
  have fr: "frames initial = 0" and tb: "tables initial = []" by (simp_all add: initial_def)
  have two: "replicate 2 Frame = [Frame, Frame]" by (simp add: numeral_2_eq_2)
  have m: "data ?s1 = Some ?m"
    unfolding run_two_brushes by (simp add: brushed_fields)
  have rows: "\<forall>kv \<in> set (omit (views flights) ''ARR_DELAY'').
                \<exists>c. ?m (fst kv) = Some c \<and>
                    rows_of flights (snd kv)
                      (slice flights
                         (map_option (\<lambda>iv. (pixel flights ARR_DELAY (fst iv),
                                             pixel flights ARR_DELAY (snd iv)))
                                     (map_option d3_extent (Some (50, 10)))) c)
                      = Some (?tbl (fst kv))"
    by (simp add: counting_db_passive d3_extent_def pixels_flights slice_spec_query
          flights_fields query_brushed rows_brushed flights_passive del: rows_of.simps)
  note c = brushMoves_coalesce [OF reachable_initial h2 h3 h4 flights_fields(2)]
  note r = c [THEN conjunct2]
  note r2 = r [THEN conjunct2]
  note r3 = r2 [THEN conjunct2]
  note r4 = r3 [THEN conjunct2]
  note r8 = r4 [THEN conjunct2, THEN conjunct2, THEN conjunct2, THEN conjunct2]
  have c1: "needsUpdate ?s1" by (rule c [THEN conjunct1])
  have c2: "frames ?s1 = frames initial + length ?evs" by (rule r [THEN conjunct1])
  have c3: "tables ?s1 = tables initial" by (rule r2 [THEN conjunct1])
  have c4: "the_brushes ?s1 (name ARR_DELAY) = map_option d3_extent (Some (50, 10))"
    by (rule r3 [THEN conjunct1])
  have c5: "run flights (replicate (frames ?s1) Frame) ?s1
               = (state_of (update flights ?s1))\<lparr>frames := 0\<rparr>"
    by (rule r4 [THEN conjunct1])
  have c9: "tables (run flights (replicate (frames ?s1) Frame) ?s1)
              = tables initial
                @ map (\<lambda>kv. (fst kv, ?tbl (fst kv))) (omit (views flights) ''ARR_DELAY'')"
    by (rule r8 [THEN spec, THEN spec, THEN mp, THEN mp, OF m rows])
  have f2: "frames ?s1 = 2" using c2 fr by simp
  show ?thesis
    using c1 f2 c3 c4 c5 c9 tb two reachable_initial
    by (simp add: dimension_names d3_extent_def flights_passive del: run.simps)
qed

section \<open>A brush move and the cubes\<close>

text \<open>
  Claim C6, as the code has it. \<open>brushMove\<close> compares the name of the brushed view, not
  its dimension, with the active view. From the view that is already active it sets or
  removes the brush entry and marks an update as needed, calls no \<open>loadData\<close>, and
  \<open>data\<close> is what it was. From any other view, also one over the active view's
  dimension, it first makes that view the active one and calls \<open>loadData\<close>, which
  replaces \<open>data\<close>.
\<close>

theorem brushMove_rebuilds_unless_from_active:
  assumes "brushes s < length (maps s)"
  shows "(activeView s = Some n \<longrightarrow>
            (\<exists>s'. brushMove e n dname v s = Ok s' \<and> data s' = data s \<and> loads s' = loads s
               \<and> needsUpdate s' \<and> activeView s' = Some n \<and> tables s' = tables s
               \<and> brushes s' = brushes s
               \<and> the_brushes s' = (case v of
                                      None \<Rightarrow> (the_brushes s)(dname := None)
                                    | Some iv \<Rightarrow> (the_brushes s)(dname \<mapsto> d3_extent iv))))
       \<and> (activeView s \<noteq> Some n \<longrightarrow> map_of (views e) n = Some av \<longrightarrow>
            (\<exists>s'. brushMove e n dname v s = Ok s'
               \<and> loads s' = loads s @ [(av, HISTOGRAM_WIDTH e, omit (views e) n,
                                        if is1DView av
                                        then (the_brushes s)(name (dimension av) := None)
                                        else the_brushes s)]
               \<and> data s' = Some (loadData e av (HISTOGRAM_WIDTH e) (omit (views e) n)
                                   (if is1DView av
                                    then (the_brushes s)(name (dimension av) := None)
                                    else the_brushes s))
               \<and> needsUpdate s' \<and> activeView s' = Some n \<and> tables s' = tables s
               \<and> brushes s' = brushes s
               \<and> the_brushes s' = (case v of
                                      None \<Rightarrow> (the_brushes s)(dname := None)
                                    | Some iv \<Rightarrow> (the_brushes s)(dname \<mapsto> d3_extent iv))))"
proof (intro conjI impI)
  assume "activeView s = Some n"
  then show "\<exists>s'. brushMove e n dname v s = Ok s' \<and> data s' = data s \<and> loads s' = loads s
               \<and> needsUpdate s' \<and> activeView s' = Some n \<and> tables s' = tables s
               \<and> brushes s' = brushes s
               \<and> the_brushes s' = (case v of
                                      None \<Rightarrow> (the_brushes s)(dname := None)
                                    | Some iv \<Rightarrow> (the_brushes s)(dname \<mapsto> d3_extent iv))"
    using assms
    by (cases v) (simp_all add: brushMove_def Map_delete_def Map_set_def the_brushes_def Let_def)
next
  assume other: "activeView s \<noteq> Some n" and av: "map_of (views e) n = Some av"
  let ?fc = "if is1DView av then (the_brushes s)(name (dimension av) := None) else the_brushes s"
  from switchActiveView_Ok [OF av, of s]
  obtain s1 where s1: "switchActiveView e n s = Ok s1" "activeView s1 = Some n"
    "brushes s1 = brushes s" "maps s1 = maps s @ [?fc]"
    "data s1 = Some (loadData e av (HISTOGRAM_WIDTH e) (omit (views e) n) ?fc)"
    "loads s1 = loads s @ [(av, HISTOGRAM_WIDTH e, omit (views e) n, ?fc)]"
    "tables s1 = tables s"
    by blast
  have same: "maps s1 ! brushes s = the_brushes s"
    using assms s1(4) by (simp add: the_brushes_def nth_append)
  have wf1: "brushes s < length (maps s1)" using assms s1(4) by simp
  show "\<exists>s'. brushMove e n dname v s = Ok s'
               \<and> loads s' = loads s @ [(av, HISTOGRAM_WIDTH e, omit (views e) n, ?fc)]
               \<and> data s' = Some (loadData e av (HISTOGRAM_WIDTH e) (omit (views e) n) ?fc)
               \<and> needsUpdate s' \<and> activeView s' = Some n \<and> tables s' = tables s
               \<and> brushes s' = brushes s
               \<and> the_brushes s' = (case v of
                                      None \<Rightarrow> (the_brushes s)(dname := None)
                                    | Some iv \<Rightarrow> (the_brushes s)(dname \<mapsto> d3_extent iv))"
    using other s1 same wf1
    by (cases v) (simp_all add: brushMove_def Map_delete_def Map_set_def the_brushes_def Let_def)
qed

lemma twins_fields:
  "map_of (views twins) ''A'' = Some (View1D X)"
  "map_of (views twins) ''B'' = Some (View1D X)"
  "HISTOGRAM_WIDTH twins = 500" "loadData twins = counting_db"
  "omit (views twins) ''A'' = [(''B'', View1D X)]"
  "omit (views twins) ''B'' = [(''A'', View1D X)]"
  by (simp_all add: twins_def flights_def omit_def)

lemma hovered_eq:
  "hovered = \<lparr>activeView = Some ''A'', brushes = 0, maps = [Map.empty, Map.empty],
               data = Some (counting_db (View1D X) 500 [(''B'', View1D X)] Map.empty),
               needsUpdate = False, signals = [(''A'', True)], tables = [],
               loads = [(View1D X, 500, [(''B'', View1D X)], Map.empty)], frames = 0\<rparr>"
  by (simp add: hovered_def on_mouseover_def twins_fields initial_def switchActiveView_def
        getActiveView_def Let_def new_Map_def the_brushes_def Map_delete_def X_def)

lemma reachable_hovered: "reachable twins hovered"
  unfolding hovered_def by (rule reachable_run [OF reachable.start])

theorem brushMove_rebuilds_unless_from_active_witness:
  "brushes brushed < length (maps brushed) \<and> activeView brushed = Some ''ARR_DELAY''
   \<and> (\<exists>s'. brushMove flights ''ARR_DELAY'' ''ARR_DELAY'' (Some (70, 20)) brushed = Ok s'
           \<and> data s' = data brushed \<and> loads s' = loads brushed \<and> needsUpdate s'
           \<and> the_brushes s' = [''ARR_DELAY'' \<mapsto> (20, 70)])
   \<and> map_of (views flights) ''DISTANCE'' = Some (View1D DISTANCE)
   \<and> (\<exists>s'. brushMove flights ''DISTANCE'' ''DISTANCE'' (Some (700, 300)) brushed = Ok s'
           \<and> loads s' = loads brushed
                 @ [(View1D DISTANCE, 500, omit (views flights) ''DISTANCE'',
                     [''ARR_DELAY'' \<mapsto> (10, 50)])]
           \<and> activeView s' = Some ''DISTANCE''
           \<and> the_brushes s' = [''ARR_DELAY'' \<mapsto> (10, 50), ''DISTANCE'' \<mapsto> (300, 700)])"
proof -
  note t = brushMove_rebuilds_unless_from_active [OF brushed_wf]
  have a: "\<exists>s'. brushMove flights ''ARR_DELAY'' ''ARR_DELAY'' (Some (70, 20)) brushed = Ok s'
           \<and> data s' = data brushed \<and> loads s' = loads brushed \<and> needsUpdate s'
           \<and> the_brushes s' = [''ARR_DELAY'' \<mapsto> (20, 70)]"
    using t [where n = "''ARR_DELAY''" and e = flights and dname = "''ARR_DELAY''"
               and v = "Some (70, 20)", THEN conjunct1, THEN mp, OF brushed_fields(2)]
    by (auto simp: brushed_fields d3_extent_def)
  have other: "activeView brushed \<noteq> Some ''DISTANCE''" by (simp add: brushed_fields)
  have b: "\<exists>s'. brushMove flights ''DISTANCE'' ''DISTANCE'' (Some (700, 300)) brushed = Ok s'
           \<and> loads s' = loads brushed
                 @ [(View1D DISTANCE, 500, omit (views flights) ''DISTANCE'',
                     [''ARR_DELAY'' \<mapsto> (10, 50)])]
           \<and> activeView s' = Some ''DISTANCE''
           \<and> the_brushes s' = [''ARR_DELAY'' \<mapsto> (10, 50), ''DISTANCE'' \<mapsto> (300, 700)]"
    using t [where n = "''DISTANCE''" and e = flights and dname = "''DISTANCE''"
               and v = "Some (700, 300)" and av = "View1D DISTANCE",
             THEN conjunct2, THEN mp, THEN mp, OF other flights_fields(3)]
    by (auto simp: brushed_fields flights_fields dimension_names d3_extent_def)
  show ?thesis using a b by (simp add: brushed_wf brushed_fields flights_fields)
qed

theorem brushMove_from_twin_view_counterexample:
  "reachable twins hovered \<and> activeView hovered = Some ''A''
   \<and> map_of (views twins) ''A'' = Some (View1D X)
   \<and> map_of (views twins) ''B'' = Some (View1D X)
   \<and> on_brush twins ''B'' (Some (1, 2)) hovered
       = brushMove twins ''B'' (name X) (Some (1, 2)) hovered
   \<and> loads hovered = [(View1D X, 500, [(''B'', View1D X)], Map.empty)]
   \<and> loads (state_of (brushMove twins ''B'' (name X) (Some (1, 2)) hovered))
       = [(View1D X, 500, [(''B'', View1D X)], Map.empty),
          (View1D X, 500, [(''A'', View1D X)], Map.empty)]
   \<and> data hovered = Some (counting_db (View1D X) 500 [(''B'', View1D X)] Map.empty)
   \<and> data (state_of (brushMove twins ''B'' (name X) (Some (1, 2)) hovered))
       = Some (counting_db (View1D X) 500 [(''A'', View1D X)] Map.empty)"
proof -
  have "name X = ''X''" by (simp add: X_def)
  then show ?thesis
    using reachable_hovered
    by (simp add: hovered_eq on_brush_def twins_fields brushMove_def switchActiveView_def
          getActiveView_def Let_def new_Map_def the_brushes_def Map_delete_def Map_set_def)
qed

end
